theory Spec2Isabelle
  imports Complex_Main "HOL-Library.Multiset" "HOL-Library.Sublist" "HOL-Library.Log_Nat"
    "HOL-Library.List_Lexorder" "HOL-Library.Char_ord"
begin

section \<open>Buffered channels with non-blocking operations\<close>

text \<open>
  A Go buffered channel \<^verbatim>\<open>make(chan T, n)\<close> is a capacity and the queue of
  values sent and not yet received. The two operations the modules use on it are the
  \<^verbatim>\<open>select { case ch <- x: default: }\<close> send and the
  \<^verbatim>\<open>select { case v := <-ch: default: }\<close> receive. Neither blocks: with no
  receiver parked on the channel the send succeeds exactly when the buffer has a free slot,
  and the receive succeeds exactly when the buffer holds a value.
\<close>

record 'a chan =
  cap :: nat
  queue :: "'a list"

definition make_chan :: "nat \<Rightarrow> 'a chan" where
  "make_chan n = \<lparr>cap = n, queue = []\<rparr>"

definition try_send :: "'a chan \<Rightarrow> 'a \<Rightarrow> 'a chan" where
  "try_send c x = (if length (queue c) < cap c then c\<lparr>queue := queue c @ [x]\<rparr> else c)"

definition try_recv :: "'a chan \<Rightarrow> 'a option \<times> 'a chan" where
  "try_recv c = (case queue c of [] \<Rightarrow> (None, c) | x # xs \<Rightarrow> (Some x, c\<lparr>queue := xs\<rparr>))"

section \<open>BaseModule: status and stop channel\<close>

text \<open>
  \<^verbatim>\<open>ModuleStatus\<close> and \<^verbatim>\<open>BaseModule\<close> of the modules package.
  \<^verbatim>\<open>Progress\<close> is a \<^verbatim>\<open>float64\<close> in the source; the model keeps exact
  rationals. Times are integers, and \<^verbatim>\<open>time.Now()\<close> is an argument.
\<close>

record ModuleStatus =
  IsRunning :: bool
  Progress :: rat
  StartTime :: int
  ElapsedTime :: int
  Status :: string
  Message :: string

record BaseModule =
  info_Name :: string
  status :: ModuleStatus
  stopCh :: "bool chan"

definition NewBaseModule :: "string \<Rightarrow> BaseModule" where
  "NewBaseModule name =
     \<lparr>info_Name = name,
      status = \<lparr>IsRunning = False, Progress = 0, StartTime = 0, ElapsedTime = 0,
                Status = ''idle'', Message = ''''\<rparr>,
      stopCh = make_chan 1\<rparr>"

definition GetStatus :: "BaseModule \<Rightarrow> ModuleStatus" where
  "GetStatus b = status b"

definition Stop :: "BaseModule \<Rightarrow> BaseModule" where
  "Stop b =
     (let b1 = b\<lparr>stopCh := try_send (stopCh b) True\<rparr>
      in b1\<lparr>status := (status b1)\<lparr>IsRunning := False, Status := ''stopped''\<rparr>\<rparr>)"

definition SetStatus :: "int \<Rightarrow> BaseModule \<Rightarrow> string \<Rightarrow> rat \<Rightarrow> string \<Rightarrow> BaseModule" where
  "SetStatus now b st progress message =
     (let s1 = (status b)\<lparr>Status := st, Progress := progress, Message := message\<rparr>;
          s2 = (if st = ''running'' \<and> \<not> IsRunning s1
                then s1\<lparr>IsRunning := True, StartTime := now\<rparr>
                else if st = ''completed'' \<or> st = ''error'' \<or> st = ''stopped''
                then s1\<lparr>IsRunning := False, ElapsedTime := now - StartTime s1\<rparr>
                else s1)
      in b\<lparr>status := s2\<rparr>)"

definition IsStopped :: "BaseModule \<Rightarrow> bool \<times> BaseModule" where
  "IsStopped b =
     (case try_recv (stopCh b) of
        (Some v, c) \<Rightarrow> (True, b\<lparr>stopCh := c\<rparr>)
      | (None, c) \<Rightarrow> (False, b))"

text \<open>The stop channel as \<^verbatim>\<open>NewBaseModule\<close> makes it: one slot, holding at most one token.\<close>

definition stop_chan_ok :: "BaseModule \<Rightarrow> bool" where
  "stop_chan_ok b = (cap (stopCh b) = 1 \<and> length (queue (stopCh b)) \<le> 1)"

text \<open>The answers of \<^verbatim>\<open>n\<close> consecutive calls of \<^verbatim>\<open>IsStopped\<close>, and the module after them.\<close>

fun poll :: "nat \<Rightarrow> BaseModule \<Rightarrow> bool list \<times> BaseModule" where
  "poll 0 b = ([], b)"
| "poll (Suc n) b =
     (case IsStopped b of (r, b1) \<Rightarrow> (case poll n b1 of (rs, b2) \<Rightarrow> (r # rs, b2)))"

section \<open>Module validation\<close>

text \<open>
  \<^verbatim>\<open>ModuleError\<close> carries a message and a code. \<^verbatim>\<open>ValidateInput\<close>,
  \<^verbatim>\<open>isValidDomain\<close> and \<^verbatim>\<open>DomainEnumModule.Validate\<close> read the target only.
  Strings are byte lists, as \<^verbatim>\<open>len\<close> counts them.
\<close>

datatype ModuleError = NewModuleError string string

definition ValidateInput :: "string \<Rightarrow> ModuleError option" where
  "ValidateInput target =
     (if target = '''' then Some (NewModuleError ''target is required'' ''INVALID_INPUT'')
      else None)"

definition isValidDomain :: "string \<Rightarrow> bool" where
  "isValidDomain domain =
     (if domain = '''' \<or> length domain > 253 then False
      else CHR ''.'' \<in> set domain \<and> \<not> prefix ''.'' domain \<and> \<not> suffix ''.'' domain)"

definition DomainEnum_Validate :: "string \<Rightarrow> ModuleError option" where
  "DomainEnum_Validate target =
     (case ValidateInput target of
        Some err \<Rightarrow> Some err
      | None \<Rightarrow>
          if \<not> isValidDomain target
          then Some (NewModuleError ''invalid domain format'' ''INVALID_DOMAIN'')
          else None)"

section \<open>The scan manager\<close>

text \<open>
  \<^verbatim>\<open>ScanExecution\<close> with its fields under a \<open>scan_\<close> prefix; \<open>scan_ctx_done\<close> is
  the state of the scan's context (\<^verbatim>\<open>scan.cancel()\<close> sets it) and \<open>scan_ticker\<close> the
  state of the scan's progress goroutine. The result of a module
  is an opaque value of type \<open>'r\<close>, \<^verbatim>\<open>Results\<close> a map from keys to such values.
  The field \<^verbatim>\<open>Options\<close> is left out: the manager stores it and never reads it
  (\<^verbatim>\<open>serializeOptions\<close> returns \<^verbatim>\<open>"{}"\<close> for every argument, and the module is
  executed on the target alone).
\<close>

text \<open>
  \<^verbatim>\<open>Progress\<close> is a \<^verbatim>\<open>float64\<close>. A finite \<^verbatim>\<open>float64\<close> is a rational number, and the
  result of an operation is the exact result rounded to the nearest \<^verbatim>\<open>float64\<close>, ties to
  the even significand. \<open>float64 x\<close> is that rounding: \<open>ilog2 \<bar>x\<bar>\<close> is the exponent of
  \<open>x\<close>, the unit in the last place is 52 binary places below it (below the exponent
  -1022 for the subnormal numbers), and \<open>x\<close> is rounded to a multiple of that unit.
  Overflow to infinity (from \<open>2 ^ 1024\<close> on) is not modelled: no value here exceeds 2. A
  decimal constant of the source, such as \<^verbatim>\<open>0.1\<close>, is \<open>float64 (1 / 10)\<close>.
\<close>

definition pow2 :: "int \<Rightarrow> rat" where
  "pow2 e = (if 0 \<le> e then 2 ^ nat e else 1 / 2 ^ nat (- e))"

definition ilog2 :: "rat \<Rightarrow> int" where
  "ilog2 x =
     (case quotient_of x of
        (a, b) \<Rightarrow> let d = bitlen a - bitlen b in if pow2 d \<le> x then d else d - 1)"

definition round_half_even :: "rat \<Rightarrow> int" where
  "round_half_even q =
     (let f = \<lfloor>q\<rfloor>; r = q - of_int f
      in if r < 1 / 2 then f else if 1 / 2 < r then f + 1 else if even f then f else f + 1)"

definition float64 :: "rat \<Rightarrow> rat" where
  "float64 x =
     (if x = 0 then 0
      else let u = pow2 (max (ilog2 \<bar>x\<bar>) (- 1022) - 52)
           in of_int (round_half_even (x / u)) * u)"

text \<open>
  The progress goroutine of \<^verbatim>\<open>executeScan\<close> reads and writes the scan without a lock,
  so what it does for one tick of the ticker is not one step. Between two of its accesses
  to the scan it is in one of these states: waiting for the next tick; past the test
  \<^verbatim>\<open>scan.Status == "running" && scan.Progress < 0.9\<close>; holding the value of
  \<^verbatim>\<open>scan.Progress\<close> that \<^verbatim>\<open>+=\<close> has read; and having stored the sum, before
  \<^verbatim>\<open>broadcastScanUpdate\<close> reads the scan.
\<close>

datatype ticker = TickerWaiting | TickerPassed | TickerLoaded rat | TickerStored

record 'r ScanExecution =
  scan_ID :: string
  scan_SessionID :: string
  scan_ModuleName :: string
  scan_Target :: string
  scan_Status :: string
  scan_Progress :: rat
  scan_StartedAt :: int
  scan_CompletedAt :: int
  scan_Results :: "string \<rightharpoonup> 'r"
  scan_Error :: string
  scan_ctx_done :: bool
  scan_ticker :: ticker

text \<open>
  A registered module as the manager holds it: the adapter around a module of the modules
  package, that is its \<^verbatim>\<open>BaseModule\<close> state and its \<^verbatim>\<open>Validate\<close>. The interface
  \<^verbatim>\<open>core.Module\<close> through which the manager sees it has \<^verbatim>\<open>GetName\<close> and
  \<^verbatim>\<open>Execute\<close> only.
\<close>

record Module =
  mod_base :: BaseModule
  mod_Validate :: "string \<Rightarrow> ModuleError option"

record 'r Session =
  ses_UpdatedAt :: int
  ses_Results :: "string \<rightharpoonup> (string \<rightharpoonup> 'r)"

text \<open>
  What the manager does to its collaborators, in order: the two SQL statements
  (\<^verbatim>\<open>storeScanInDB\<close>, \<^verbatim>\<open>updateScanInDB\<close> with the values they bind), the broadcast
  of a scan update, the cancellation of a scan's context and the start of the execution
  goroutine. Logger calls are left out.
\<close>

datatype effect =
    DbInsert string string string string string rat int
  | DbUpdate string rat int string string
  | Broadcast string string rat
  | CtxCancel string
  | GoExecuteScan string

record 'r ScanManager =
  scans :: "string \<rightharpoonup> 'r ScanExecution"
  app_modules :: "string \<rightharpoonup> Module"
  app_sessions :: "string \<rightharpoonup> 'r Session"
  effects :: "effect list"

definition storeScanInDB :: "'r ScanExecution \<Rightarrow> effect" where
  "storeScanInDB scan =
     DbInsert (scan_ID scan) (scan_SessionID scan) (scan_ModuleName scan) (scan_Target scan)
       (scan_Status scan) (scan_Progress scan) (scan_StartedAt scan)"

definition updateScanInDB :: "'r ScanExecution \<Rightarrow> effect" where
  "updateScanInDB scan =
     DbUpdate (scan_Status scan) (scan_Progress scan) (scan_CompletedAt scan) (scan_Error scan)
       (scan_ID scan)"

definition broadcastScanUpdate :: "'r ScanExecution \<Rightarrow> effect" where
  "broadcastScanUpdate scan = Broadcast (scan_ID scan) (scan_Status scan) (scan_Progress scan)"

text \<open>
  \<^verbatim>\<open>StartScan\<close>; the fresh id of \<^verbatim>\<open>generateScanID\<close> and the current time are
  arguments. The only failure is an unregistered module name.
\<close>

definition StartScan ::
  "'r ScanManager \<Rightarrow> string \<Rightarrow> int \<Rightarrow> string \<Rightarrow> string \<Rightarrow> string
     \<Rightarrow> (string + 'r ScanExecution) \<times> 'r ScanManager" where
  "StartScan sm newID now sessionID moduleName target =
     (case app_modules sm moduleName of
        None \<Rightarrow> (Inl (''module '' @ moduleName @ '' not found''), sm)
      | Some registered \<Rightarrow>
          let scan = \<lparr>scan_ID = newID, scan_SessionID = sessionID, scan_ModuleName = moduleName,
                      scan_Target = target, scan_Status = ''pending'', scan_Progress = 0,
                      scan_StartedAt = now, scan_CompletedAt = 0, scan_Results = Map.empty,
                      scan_Error = '''', scan_ctx_done = False, scan_ticker = TickerWaiting\<rparr>
          in (Inr scan,
              sm\<lparr>scans := (scans sm)(scan_ID scan \<mapsto> scan),
                 effects := effects sm @ [storeScanInDB scan, GoExecuteScan (scan_ID scan)]\<rparr>))"

definition GetScan :: "'r ScanManager \<Rightarrow> string \<Rightarrow> 'r ScanExecution option" where
  "GetScan sm scanID = scans sm scanID"

text \<open>\<^verbatim>\<open>CancelScan\<close> returns the error, if any, and the manager after the call.\<close>

definition CancelScan :: "'r ScanManager \<Rightarrow> string \<Rightarrow> string option \<times> 'r ScanManager" where
  "CancelScan sm scanID =
     (case scans sm scanID of
        None \<Rightarrow> (Some (''scan '' @ scanID @ '' not found''), sm)
      | Some scan \<Rightarrow>
          if scan_Status scan = ''running''
          then let scan1 = scan\<lparr>scan_ctx_done := True\<rparr>;
                   scan2 = scan1\<lparr>scan_Status := ''cancelled''\<rparr>
               in (None, sm\<lparr>scans := (scans sm)(scanID \<mapsto> scan2),
                            effects := effects sm @ [CtxCancel scanID, updateScanInDB scan2]\<rparr>)
          else (None, sm))"

text \<open>
  \<^verbatim>\<open>executeScan\<close> works on the scan through its pointer, so each part of it is a
  function on the manager and the scan's id. Its own goroutine has two parts: the start
  (status \<open>running\<close>, progress 0.1), before the progress goroutine exists, and everything
  after \<^verbatim>\<open>module.Execute\<close> has returned. The progress goroutine runs beside it:
  \<^verbatim>\<open>
  case <-progressTicker.C:
      if scan.Status == "running" && scan.Progress < 0.9 {
          scan.Progress += 0.1
          sm.broadcastScanUpdate(scan)
      }
  \<close>
  Its steps are the test, the read of \<^verbatim>\<open>scan.Progress\<close> by \<^verbatim>\<open>+=\<close>, the write of the
  sum, and the broadcast; any step of another goroutine can come between two of them.
  The ticker case of the \<^verbatim>\<open>select\<close> can still be taken once the context is done, so
  the test is not guarded by \<open>scan_ctx_done\<close>.
\<close>

definition on_scan ::
  "'r ScanManager \<Rightarrow> string \<Rightarrow> ('r ScanExecution \<Rightarrow> 'r ScanExecution \<times> effect list)
     \<Rightarrow> 'r ScanManager" where
  "on_scan sm scanID f =
     (case scans sm scanID of
        None \<Rightarrow> sm
      | Some scan \<Rightarrow>
          (case f scan of
             (scan', es) \<Rightarrow> sm\<lparr>scans := (scans sm)(scanID \<mapsto> scan'), effects := effects sm @ es\<rparr>))"

definition executeScan_start :: "'r ScanExecution \<Rightarrow> 'r ScanExecution \<times> effect list" where
  "executeScan_start scan =
     (let scan1 = scan\<lparr>scan_Status := ''running'', scan_Progress := float64 (1 / 10)\<rparr>
      in (scan1, [updateScanInDB scan1, broadcastScanUpdate scan1]))"

definition tick_test :: "'r ScanExecution \<Rightarrow> 'r ScanExecution \<times> effect list" where
  "tick_test scan =
     (if scan_ticker scan = TickerWaiting
         \<and> scan_Status scan = ''running'' \<and> scan_Progress scan < float64 (9 / 10)
      then (scan\<lparr>scan_ticker := TickerPassed\<rparr>, [])
      else (scan, []))"

definition tick_load :: "'r ScanExecution \<Rightarrow> 'r ScanExecution \<times> effect list" where
  "tick_load scan =
     (case scan_ticker scan of
        TickerPassed \<Rightarrow> (scan\<lparr>scan_ticker := TickerLoaded (scan_Progress scan)\<rparr>, [])
      | _ \<Rightarrow> (scan, []))"

definition tick_store :: "'r ScanExecution \<Rightarrow> 'r ScanExecution \<times> effect list" where
  "tick_store scan =
     (case scan_ticker scan of
        TickerLoaded p \<Rightarrow>
          (scan\<lparr>scan_Progress := float64 (p + float64 (1 / 10)), scan_ticker := TickerStored\<rparr>, [])
      | _ \<Rightarrow> (scan, []))"

definition tick_broadcast :: "'r ScanExecution \<Rightarrow> 'r ScanExecution \<times> effect list" where
  "tick_broadcast scan =
     (case scan_ticker scan of
        TickerStored \<Rightarrow> (scan\<lparr>scan_ticker := TickerWaiting\<rparr>, [broadcastScanUpdate scan])
      | _ \<Rightarrow> (scan, []))"

text \<open>What \<^verbatim>\<open>module.Execute(scan.Target)\<close> returned: a result or an error message.\<close>

datatype 'r outcome = Returned 'r | Failed string

definition executeScan_finish ::
  "int \<Rightarrow> 'r outcome \<Rightarrow> 'r ScanExecution \<Rightarrow> 'r ScanExecution \<times> effect list" where
  "executeScan_finish now out scan =
     (let scan1 = scan\<lparr>scan_ctx_done := True\<rparr>;
          scan2 = scan1\<lparr>scan_CompletedAt := now\<rparr>;
          scan3 = (case out of
                     Failed msg \<Rightarrow> scan2\<lparr>scan_Status := ''failed'', scan_Error := msg\<rparr>
                   | Returned result \<Rightarrow>
                       scan2\<lparr>scan_Status := ''completed'',
                             scan_Results := [''data'' \<mapsto> result]\<rparr>);
          scan4 = scan3\<lparr>scan_Progress := 1\<rparr>
      in (scan4, [CtxCancel (scan_ID scan), updateScanInDB scan4, broadcastScanUpdate scan4]))"

definition store_session_results :: "int \<Rightarrow> 'r ScanManager \<Rightarrow> string \<Rightarrow> 'r ScanManager" where
  "store_session_results now sm scanID =
     (case scans sm scanID of
        None \<Rightarrow> sm
      | Some scan \<Rightarrow>
          (case app_sessions sm (scan_SessionID scan) of
             None \<Rightarrow> sm
           | Some session \<Rightarrow>
               sm\<lparr>app_sessions := (app_sessions sm)(scan_SessionID scan \<mapsto>
                     session\<lparr>ses_Results := (ses_Results session)(scan_ModuleName scan \<mapsto> scan_Results scan),
                             ses_UpdatedAt := now\<rparr>)\<rparr>))"

text \<open>
  The events in the life of one started scan, after \<^verbatim>\<open>executeScan\<close> has begun: the
  four steps of the progress goroutine, a call of \<^verbatim>\<open>CancelScan\<close> for it, and the return
  of the module with all that follows it.
\<close>

datatype 'r action =
  TickTest | TickLoad | TickStore | TickBroadcast | Cancel | Finish int "'r outcome"

fun apply_action :: "string \<Rightarrow> 'r ScanManager \<Rightarrow> 'r action \<Rightarrow> 'r ScanManager" where
  "apply_action scanID sm TickTest = on_scan sm scanID tick_test"
| "apply_action scanID sm TickLoad = on_scan sm scanID tick_load"
| "apply_action scanID sm TickStore = on_scan sm scanID tick_store"
| "apply_action scanID sm TickBroadcast = on_scan sm scanID tick_broadcast"
| "apply_action scanID sm Cancel = snd (CancelScan sm scanID)"
| "apply_action scanID sm (Finish now out) =
     store_session_results now (on_scan sm scanID (executeScan_finish now out)) scanID"

text \<open>The managers a run goes through: the one it starts in, then one after each action.\<close>

fun run :: "string \<Rightarrow> 'r ScanManager \<Rightarrow> 'r action list \<Rightarrow> 'r ScanManager list" where
  "run scanID sm [] = [sm]"
| "run scanID sm (a # as) = sm # run scanID (apply_action scanID sm a) as"

text \<open>The actions before the module has returned: steps of the progress goroutine and cancels.\<close>

definition before_return :: "'r action list \<Rightarrow> bool" where
  "before_return as = list_all (\<lambda>a. case a of Finish now out \<Rightarrow> False | _ \<Rightarrow> True) as"

definition progress_of :: "string \<Rightarrow> 'r ScanManager \<Rightarrow> rat" where
  "progress_of scanID sm = (case scans sm scanID of None \<Rightarrow> 0 | Some scan \<Rightarrow> scan_Progress scan)"

definition status_of :: "string \<Rightarrow> 'r ScanManager \<Rightarrow> string" where
  "status_of scanID sm = (case scans sm scanID of None \<Rightarrow> '''' | Some scan \<Rightarrow> scan_Status scan)"

text \<open>
  The whole life of a scan as its observers see it: the manager after \<^verbatim>\<open>StartScan\<close>
  (status \<open>pending\<close>), after the start of \<^verbatim>\<open>executeScan\<close>, and after each later action.
\<close>

definition scan_life ::
  "'r ScanManager \<Rightarrow> string \<Rightarrow> int \<Rightarrow> string \<Rightarrow> string \<Rightarrow> string \<Rightarrow> 'r action list
     \<Rightarrow> 'r ScanManager list" where
  "scan_life sm newID now sessionID moduleName target as =
     (let sm1 = snd (StartScan sm newID now sessionID moduleName target)
      in sm1 # run newID (on_scan sm1 newID executeScan_start) as)"

text \<open>
  A manager for the examples: the domain enumeration module registered under its name
  \<open>domain_enum\<close>, one session, no scans yet.
\<close>

definition domain_module :: Module where
  "domain_module = \<lparr>mod_base = NewBaseModule ''domain_enum'', mod_Validate = DomainEnum_Validate\<rparr>"

definition manager0 :: "string ScanManager" where
  "manager0 =
     \<lparr>scans = Map.empty,
      app_modules = [''domain_enum'' \<mapsto> domain_module],
      app_sessions = [''s1'' \<mapsto> \<lparr>ses_UpdatedAt = 0, ses_Results = Map.empty\<rparr>],
      effects = []\<rparr>"

text \<open>The terminal statuses \<^verbatim>\<open>executeScan\<close> records.\<close>

definition terminal_status :: "string \<Rightarrow> bool" where
  "terminal_status st = (st = ''completed'' \<or> st = ''failed'')"

text \<open>
  The progress values the ticks can reach before the module returns: 0.1, set by the
  start of \<^verbatim>\<open>executeScan\<close>, and what up to nine additions of 0.1 make of it. And the
  states of a scan in which only \<^verbatim>\<open>executeScan\<close>'s start and the progress goroutine
  have written its progress: the progress is one of these values, and a tick that has
  passed its test did so on the progress the scan still has.
\<close>

fun tick_value :: "nat \<Rightarrow> rat" where
  "tick_value 0 = float64 (1 / 10)"
| "tick_value (Suc k) = float64 (tick_value k + float64 (1 / 10))"

definition tick_values :: "rat list" where
  "tick_values = map tick_value [0 ..< 10]"

definition ticking :: "'r ScanExecution \<Rightarrow> bool" where
  "ticking scan =
     (scan_Progress scan \<in> set tick_values
      \<and> (case scan_ticker scan of
            TickerPassed \<Rightarrow> scan_Progress scan < float64 (9 / 10)
          | TickerLoaded p \<Rightarrow> p = scan_Progress scan \<and> p < float64 (9 / 10)
          | _ \<Rightarrow> True))"

definition ticking_at :: "string \<Rightarrow> 'r ScanManager \<Rightarrow> bool" where
  "ticking_at scanID sm = (case scans sm scanID of None \<Rightarrow> False | Some scan \<Rightarrow> ticking scan)"

section \<open>Email enumeration: merging findings\<close>

text \<open>
  \<^verbatim>\<open>EmailInfo\<close>, and the merge loop that \<^verbatim>\<open>EmailEnumModule.Execute\<close> runs once for
  each technique (search engines, Hunter.io, website crawl, deep search):
  \<^verbatim>\<open>
  for _, email := range found {
      if existing, exists := emailMap[email.Email]; exists {
          existing.Sources = append(existing.Sources, email.Sources...)
          existing.Confidence = max(existing.Confidence, email.Confidence)
      } else {
          emailMap[email.Email] = &email
      }
  }
  \<close>
  \<^verbatim>\<open>emailMap\<close> is a \<^verbatim>\<open>map[string]*EmailInfo\<close> and the pointer stored is the address
  of the loop variable, so the model has a heap of \<^verbatim>\<open>EmailInfo\<close> variables, an
  allocation counter, and a map from email addresses to heap addresses. Slices are lists, that is
  values: \<^verbatim>\<open>append\<close> writes past the length of the slice it extends, where no other
  \<^verbatim>\<open>Sources\<close> slice reads.
\<close>

record EmailInfo =
  Email :: string
  Name :: string
  Position :: string
  Department :: string
  Sources :: "string list"
  Confidence :: int
  LastSeen :: string

record merge_state =
  heap :: "nat \<rightharpoonup> EmailInfo"
  next_addr :: nat
  emailMap :: "string \<rightharpoonup> nat"

definition empty_state :: merge_state where
  "empty_state = \<lparr>heap = Map.empty, next_addr = 0, emailMap = Map.empty\<rparr>"

text \<open>An assignment through a pointer: \<open>f\<close> applied to the variable at address \<open>p\<close>.\<close>

definition assign_at :: "(nat \<rightharpoonup> EmailInfo) \<Rightarrow> nat \<Rightarrow> (EmailInfo \<Rightarrow> EmailInfo) \<Rightarrow> (nat \<rightharpoonup> EmailInfo)" where
  "assign_at h p f = (case h p of None \<Rightarrow> h | Some x \<Rightarrow> h(p \<mapsto> f x))"

text \<open>
  The body of the loop, with the loop variable \<^verbatim>\<open>email\<close> at address \<open>v\<close>. The two
  assignments of the first branch are done one after the other, each reading the heap
  the one before it left, as they do when \<^verbatim>\<open>existing\<close> is the address of \<^verbatim>\<open>email\<close>
  itself.
\<close>

definition merge_body :: "nat \<Rightarrow> merge_state \<Rightarrow> merge_state" where
  "merge_body v st =
     (case heap st v of
        None \<Rightarrow> st
      | Some email \<Rightarrow>
          (case emailMap st (Email email) of
             Some existing \<Rightarrow>
               let h1 = assign_at (heap st) existing
                          (\<lambda>e. e\<lparr>Sources := Sources e @ Sources email\<rparr>);
                   h2 = (case h1 v of
                           None \<Rightarrow> h1
                         | Some email1 \<Rightarrow>
                             assign_at h1 existing
                               (\<lambda>e. e\<lparr>Confidence := max (Confidence e) (Confidence email1)\<rparr>))
               in st\<lparr>heap := h2\<rparr>
           | None \<Rightarrow> st\<lparr>emailMap := (emailMap st)(Email email \<mapsto> v)\<rparr>))"

text \<open>
  The loop. Which variable \<^verbatim>\<open>&email\<close> names depends on the language version the
  module is built with (its \<^verbatim>\<open>go.mod\<close>), so it is the argument \<open>per_iteration\<close>:
  from Go 1.22 on each iteration has a variable of its own, before that the loop has
  one variable, assigned anew in each iteration.
\<close>

fun merge_loop :: "bool \<Rightarrow> nat \<Rightarrow> EmailInfo list \<Rightarrow> merge_state \<Rightarrow> merge_state" where
  "merge_loop per_iteration v [] st = st"
| "merge_loop per_iteration v (x # xs) st =
     (if per_iteration
      then let w = next_addr st;
               st1 = st\<lparr>heap := (heap st)(w \<mapsto> x), next_addr := Suc w\<rparr>
           in merge_loop per_iteration v xs (merge_body w st1)
      else merge_loop per_iteration v xs (merge_body v (st\<lparr>heap := (heap st)(v \<mapsto> x)\<rparr>)))"

definition merge_phase :: "bool \<Rightarrow> EmailInfo list \<Rightarrow> merge_state \<Rightarrow> merge_state" where
  "merge_phase per_iteration found st =
     (let v = next_addr st
      in merge_loop per_iteration v found (st\<lparr>next_addr := Suc v\<rparr>))"

text \<open>
  The findings of the techniques, merged in the order given, starting from the empty map;
  and the record the final map holds for an email address: \<^verbatim>\<open>*emailMap[k]\<close>.
\<close>

definition merge_techniques :: "bool \<Rightarrow> EmailInfo list list \<Rightarrow> merge_state" where
  "merge_techniques per_iteration techniques = fold (merge_phase per_iteration) techniques empty_state"

definition record_at :: "merge_state \<Rightarrow> string \<Rightarrow> EmailInfo option" where
  "record_at st k = (case emailMap st k of None \<Rightarrow> None | Some p \<Rightarrow> heap st p)"

definition merged :: "bool \<Rightarrow> EmailInfo list list \<Rightarrow> string \<Rightarrow> EmailInfo option" where
  "merged per_iteration techniques k = record_at (merge_techniques per_iteration techniques) k"

text \<open>
  For the proofs: the merge of one finding into a map of records by value, what a finding
  contributes to the confidence and the source labels of its email address, and the states in
  which the map's pointers are distinct, allocated variables.
\<close>

definition merge_value :: "EmailInfo \<Rightarrow> (string \<rightharpoonup> EmailInfo) \<Rightarrow> (string \<rightharpoonup> EmailInfo)" where
  "merge_value x m =
     (case m (Email x) of
        Some e \<Rightarrow> m(Email x \<mapsto> e\<lparr>Sources := Sources e @ Sources x,
                                  Confidence := max (Confidence e) (Confidence x)\<rparr>)
      | None \<Rightarrow> m(Email x \<mapsto> x))"

definition evidence :: "(string \<rightharpoonup> EmailInfo) \<Rightarrow> string \<Rightarrow> (int \<times> string multiset) option" where
  "evidence m k = map_option (\<lambda>e. (Confidence e, mset (Sources e))) (m k)"

definition add_evidence ::
  "EmailInfo \<Rightarrow> (string \<rightharpoonup> int \<times> string multiset) \<Rightarrow> (string \<rightharpoonup> int \<times> string multiset)" where
  "add_evidence x a =
     (case a (Email x) of
        Some (c, s) \<Rightarrow> a(Email x \<mapsto> (max c (Confidence x), s + mset (Sources x)))
      | None \<Rightarrow> a(Email x \<mapsto> (Confidence x, mset (Sources x))))"

definition pointers_ok :: "merge_state \<Rightarrow> bool" where
  "pointers_ok st =
     ((\<forall>k p. emailMap st k = Some p \<longrightarrow> p < next_addr st \<and> heap st p \<noteq> None)
      \<and> inj_on (emailMap st) (dom (emailMap st)))"

text \<open>The findings of the examples.\<close>

definition alice_google :: EmailInfo where
  "alice_google = \<lparr>Email = ''alice@example.com'', Name = '''', Position = '''', Department = '''',
     Sources = [''Google Search''], Confidence = 70, LastSeen = ''2024-01-01''\<rparr>"

definition alice_hunter :: EmailInfo where
  "alice_hunter = \<lparr>Email = ''alice@example.com'', Name = ''Alice Smith'', Position = ''CTO'',
     Department = ''it'', Sources = [''example.com'', ''Hunter.io''], Confidence = 85,
     LastSeen = ''2024-01-01''\<rparr>"

definition alice_website :: EmailInfo where
  "alice_website = \<lparr>Email = ''alice@example.com'', Name = '''', Position = '''', Department = '''',
     Sources = [''Website: /contact''], Confidence = 60, LastSeen = ''2024-01-01''\<rparr>"

text \<open>
  What \<^verbatim>\<open>crawlWebsiteEmails\<close> returns when the pages \<^verbatim>\<open>/\<close> and \<^verbatim>\<open>/contact\<close> both show
  the address (one finding for each page, confidence 85), and what \<^verbatim>\<open>hunterIOSearch\<close>
  returns for a response that lists the address twice, with confidence 90 and 50.
\<close>

definition alice_on_pages :: "EmailInfo list" where
  "alice_on_pages =
     [\<lparr>Email = ''alice@example.com'', Name = '''', Position = '''', Department = '''',
       Sources = [''Website: /''], Confidence = 85, LastSeen = ''2024-01-01''\<rparr>,
      \<lparr>Email = ''alice@example.com'', Name = '''', Position = '''', Department = '''',
       Sources = [''Website: /contact''], Confidence = 85, LastSeen = ''2024-01-01''\<rparr>]"

definition alice_twice_at_hunter :: "EmailInfo list" where
  "alice_twice_at_hunter =
     [\<lparr>Email = ''alice@example.com'', Name = ''Alice Smith'', Position = ''CTO'',
       Department = ''it'', Sources = [''example.com/team'', ''Hunter.io''], Confidence = 90,
       LastSeen = ''2024-01-01''\<rparr>,
      \<lparr>Email = ''alice@example.com'', Name = '''', Position = '''', Department = '''',
       Sources = [''Hunter.io''], Confidence = 50, LastSeen = ''2024-01-01''\<rparr>]"

section \<open>The semaphore-guarded fan-out\<close>

text \<open>
  Blocking channel operations: a send on a buffered channel can proceed when the buffer
  has a free slot, a receive when it holds a value. \<open>None\<close> says that the goroutine
  cannot take the step now.
\<close>

definition chan_send :: "'a chan \<Rightarrow> 'a \<Rightarrow> 'a chan option" where
  "chan_send c x = (if length (queue c) < cap c then Some (c\<lparr>queue := queue c @ [x]\<rparr>) else None)"

definition chan_recv :: "'a chan \<Rightarrow> ('a \<times> 'a chan) option" where
  "chan_recv c = (case queue c of [] \<Rightarrow> None | x # xs \<Rightarrow> Some (x, c\<lparr>queue := xs\<rparr>))"

text \<open>
  The \<^verbatim>\<open>threads\<close> option as \<^verbatim>\<open>Execute\<close> reads it: a missing or non-positive value
  is replaced by the module's default (100 in the port scan, 20 in the web enumeration),
  and the semaphore is \<^verbatim>\<open>make(chan bool, threads)\<close>.
\<close>

definition thread_limit :: "int \<Rightarrow> int \<Rightarrow> nat" where
  "thread_limit dflt threads = nat (if threads \<le> 0 then dflt else threads)"

text \<open>
  The loop over the candidates starts one goroutine for each, and each goroutine sends
  to the semaphore, runs its check, and receives from the semaphore:
  \<^verbatim>\<open>
  for _, port := range ports {
      if p.IsStopped() { break }
      wg.Add(1)
      go func(port int) {
          ...
          p.semaphore <- true              // Acquire semaphore
          defer func() { <-p.semaphore }() // Release semaphore
          if p.scanPort(...) { ... }
      }(port)
  }
  \<close>
  A state of the fan-out of one call of \<^verbatim>\<open>Execute\<close> has the candidates the loop has not
  reached, the goroutines that have not yet sent to the semaphore, those that hold a slot
  and are checking, and those that have given it back. The semaphore is not a variable
  of the call: it is the field \<^verbatim>\<open>p.semaphore\<close> (\<^verbatim>\<open>w.semaphore\<close>) of the module, of
  which the application registers one instance that serves every scan. Each call of
  \<^verbatim>\<open>Execute\<close> assigns it,
  \<^verbatim>\<open>
  threads, _ := input.Options["threads"].(int)
  if threads <= 0 { threads = 100 }
  p.semaphore = make(chan bool, threads)
  \<close>
  and each goroutine reads the field when it sends and again when it receives. So the
  state has the field, and the module's default for \<^verbatim>\<open>threads\<close>.
\<close>

record 'c fanout =
  pending :: "'c list"
  waiting :: "'c list"
  in_flight :: "'c list"
  finished :: "'c list"
  semaphore :: "bool chan"
  default_threads :: int

definition fanout_start :: "'c list \<Rightarrow> int \<Rightarrow> int \<Rightarrow> 'c fanout" where
  "fanout_start candidates dflt threads =
     \<lparr>pending = candidates, waiting = [], in_flight = [], finished = [],
      semaphore = make_chan (thread_limit dflt threads), default_threads = dflt\<rparr>"

text \<open>
  The steps: the loop launches the goroutine of the next candidate, or leaves because
  \<^verbatim>\<open>IsStopped\<close> answered true; the \<open>i\<close>-th waiting goroutine sends to the channel the
  field holds; the \<open>i\<close>-th checking goroutine finishes its check and receives from the
  channel the field holds then; and another call of \<^verbatim>\<open>Execute\<close> on the same module,
  for another scan, with its own \<^verbatim>\<open>threads\<close> option, assigns a new channel to the field.
  A send or receive that cannot proceed is no step: the goroutine stays where it is. (A
  goroutine blocked in a send stays with the channel it has read, while a step reads the
  field at the moment of the send; as long as no second call assigns the field that is
  the same channel.)
\<close>

datatype fan_event = Launch | Break | Acquire nat | Release nat | Execute_again int

definition remove_nth :: "nat \<Rightarrow> 'a list \<Rightarrow> 'a list" where
  "remove_nth i xs = take i xs @ drop (Suc i) xs"

fun fan_step :: "fan_event \<Rightarrow> 'c fanout \<Rightarrow> 'c fanout option" where
  "fan_step Launch s =
     (case pending s of
        [] \<Rightarrow> None
      | c # cs \<Rightarrow> Some (s\<lparr>pending := cs, waiting := waiting s @ [c]\<rparr>))"
| "fan_step Break s = (if pending s = [] then None else Some (s\<lparr>pending := []\<rparr>))"
| "fan_step (Acquire i) s =
     (if i < length (waiting s)
      then (case chan_send (semaphore s) True of
              None \<Rightarrow> None
            | Some sem \<Rightarrow>
                Some (s\<lparr>waiting := remove_nth i (waiting s),
                        in_flight := in_flight s @ [waiting s ! i],
                        semaphore := sem\<rparr>))
      else None)"
| "fan_step (Release i) s =
     (if i < length (in_flight s)
      then (case chan_recv (semaphore s) of
              None \<Rightarrow> None
            | Some (v, sem) \<Rightarrow>
                Some (s\<lparr>in_flight := remove_nth i (in_flight s),
                        finished := finished s @ [in_flight s ! i],
                        semaphore := sem\<rparr>))
      else None)"
| "fan_step (Execute_again threads) s =
     Some (s\<lparr>semaphore := make_chan (thread_limit (default_threads s) threads)\<rparr>)"

fun fan_run :: "fan_event list \<Rightarrow> 'c fanout \<Rightarrow> 'c fanout option" where
  "fan_run [] s = Some s"
| "fan_run (e # es) s = (case fan_step e s of None \<Rightarrow> None | Some s' \<Rightarrow> fan_run es s')"

text \<open>The runs of one call alone: no other call of \<^verbatim>\<open>Execute\<close> on the module meanwhile.\<close>

definition alone :: "fan_event list \<Rightarrow> bool" where
  "alone es = list_all (\<lambda>e. case e of Execute_again threads \<Rightarrow> False | _ \<Rightarrow> True) es"

text \<open>The checks in flight are the slots taken, and no more than the semaphore has.\<close>

definition slots_ok :: "nat \<Rightarrow> 'c fanout \<Rightarrow> bool" where
  "slots_ok L s =
     (cap (semaphore s) = L \<and> length (queue (semaphore s)) = length (in_flight s)
      \<and> length (in_flight s) \<le> L)"

section \<open>Events and the port scan\<close>

text \<open>
  \<^verbatim>\<open>ModuleResult\<close>, with the payload type \<open>'d\<close> of the module, and
  \<^verbatim>\<open>BaseModule.SendResult\<close>: one non-blocking send, whatever the type of the event.
\<close>

datatype meta_value = MInt int | MStr string

record 'd ModuleResult =
  res_Type :: string
  res_Data :: 'd
  res_Metadata :: "(string \<times> meta_value) list"
  res_Timestamp :: int
  res_SessionID :: string
  res_Module :: string

definition SendResult ::
  "int \<Rightarrow> BaseModule \<Rightarrow> 'd ModuleResult chan \<Rightarrow> string \<Rightarrow> 'd \<Rightarrow> (string \<times> meta_value) list
     \<Rightarrow> string \<Rightarrow> 'd ModuleResult chan" where
  "SendResult now b output resultType data metadata sessionID =
     (let result = \<lparr>res_Type = resultType, res_Data = data, res_Metadata = metadata,
                     res_Timestamp = now, res_SessionID = sessionID, res_Module = info_Name b\<rparr>
      in try_send output result)"

record PortInfo =
  Port :: int
  Protocol :: string
  State :: string
  Service :: string
  Version :: string
  Banner :: string
  ResponseTime :: string

record PortScanResult =
  ps_Target :: string
  OpenPorts :: "PortInfo list"
  ClosedPorts :: "int list"
  TotalPorts :: nat
  ScanTime :: string
  ScanType :: string

datatype port_payload = PText string | POpenPort PortInfo | PResult PortScanResult

text \<open>
  What the port scan gets from outside: the network (\<^verbatim>\<open>scanPort\<close>,
  \<^verbatim>\<open>detectService\<close>, \<^verbatim>\<open>grabBanner\<close> for the target), the service table of
  \<^verbatim>\<open>getServiceName\<close>, the clock, and the formatting of messages. The options are
  those \<^verbatim>\<open>Execute\<close> reads, with \<open>opt_ports\<close> the list \<^verbatim>\<open>parsePorts\<close> returns.
\<close>

record port_env =
  scanPort :: "int \<Rightarrow> bool"
  detectService :: "int \<Rightarrow> string"
  grabBanner :: "int \<Rightarrow> string"
  getServiceName :: "int \<Rightarrow> string"
  clock :: int
  elapsed :: string
  sprintf :: "string \<Rightarrow> int list \<Rightarrow> string"

record port_opts =
  opt_serviceDetection :: bool
  opt_bannerGrab :: bool
  opt_scanType :: string
  opt_ports :: "int list"

text \<open>
  The state of one \<^verbatim>\<open>Execute\<close>: the module, the output channel, the results
  collected, \<^verbatim>\<open>scannedCount\<close>, and the status after each call of \<^verbatim>\<open>SetStatus\<close>,
  oldest first.
\<close>

record ps_state =
  ps_mod :: BaseModule
  ps_out :: "port_payload ModuleResult chan"
  ps_open :: "PortInfo list"
  ps_closed :: "int list"
  ps_scanned :: nat
  ps_trace :: "ModuleStatus list"

definition ps_SetStatus :: "int \<Rightarrow> string \<Rightarrow> rat \<Rightarrow> string \<Rightarrow> ps_state \<Rightarrow> ps_state" where
  "ps_SetStatus now st progress message s =
     (let b = SetStatus now (ps_mod s) st progress message
      in s\<lparr>ps_mod := b, ps_trace := ps_trace s @ [GetStatus b]\<rparr>)"

text \<open>
  The goroutine of one port, from the acquired semaphore to the deferred status update:
  the port is scanned, an open port is recorded and sent as a \<open>data\<close> event, a closed
  one is recorded, and then \<^verbatim>\<open>scannedCount\<close> is incremented and the status set to
  \<open>running\<close> with progress \<^verbatim>\<open>scannedCount / len(ports)\<close>.
\<close>

definition open_portInfo :: "port_env \<Rightarrow> port_opts \<Rightarrow> int \<Rightarrow> PortInfo" where
  "open_portInfo env opts port =
     \<lparr>Port = port, Protocol = ''tcp'', State = ''open'', Service = getServiceName env port,
      Version = (if opt_serviceDetection opts then detectService env port else ''''),
      Banner = (if opt_bannerGrab opts then grabBanner env port else ''''),
      ResponseTime = ''''\<rparr>"

definition scan_goroutine ::
  "port_env \<Rightarrow> port_opts \<Rightarrow> string \<Rightarrow> int \<Rightarrow> ps_state \<Rightarrow> ps_state" where
  "scan_goroutine env opts sessionID port s =
     (let s1 =
            (if scanPort env port
             then let portInfo = open_portInfo env opts port
                  in s\<lparr>ps_open := ps_open s @ [portInfo],
                       ps_out := SendResult (clock env) (ps_mod s) (ps_out s) ''data''
                                   (POpenPort portInfo) [] sessionID\<rparr>
             else s\<lparr>ps_closed := ps_closed s @ [port]\<rparr>);
          s2 = s1\<lparr>ps_scanned := Suc (ps_scanned s1)\<rparr>;
          progress = of_nat (ps_scanned s2) / of_nat (length (opt_ports opts))
      in ps_SetStatus (clock env) ''running'' progress
           (sprintf env ''Scanned %d/%d ports''
              [int (ps_scanned s2), int (length (opt_ports opts))]) s2)"

text \<open>
  The loop over the ports: \<^verbatim>\<open>IsStopped\<close> is asked before each port, and a true
  answer leaves the loop. The goroutines are run in the order they are started, each to
  its end before the next is started; the statuses set and the events sent before the
  final one are the same, up to the order of the \<open>data\<close> events, in every other
  schedule, since \<^verbatim>\<open>wg.Wait()\<close> lets \<^verbatim>\<open>Execute\<close> go on only when all have ended.
  The semaphore, which only bounds how many checks run at once, has its own model above.
\<close>

fun scan_loop :: "port_env \<Rightarrow> port_opts \<Rightarrow> string \<Rightarrow> int list \<Rightarrow> ps_state \<Rightarrow> ps_state" where
  "scan_loop env opts sessionID [] s = s"
| "scan_loop env opts sessionID (port # ports) s =
     (case IsStopped (ps_mod s) of
        (True, b) \<Rightarrow> s\<lparr>ps_mod := b\<rparr>
      | (False, b) \<Rightarrow>
          scan_loop env opts sessionID ports
            (scan_goroutine env opts sessionID port (s\<lparr>ps_mod := b\<rparr>)))"

definition PortScan_Execute ::
  "port_env \<Rightarrow> port_opts \<Rightarrow> BaseModule \<Rightarrow> string \<Rightarrow> string \<Rightarrow> port_payload ModuleResult chan
     \<Rightarrow> ModuleError option \<times> ps_state" where
  "PortScan_Execute env opts b target sessionID output =
     (let s0 = ps_SetStatus (clock env) ''running'' 0 ''Starting port scan''
                 \<lparr>ps_mod = b, ps_out = output, ps_open = [], ps_closed = [], ps_scanned = 0,
                  ps_trace = []\<rparr>;
          scanType = (if opt_scanType opts = '''' then ''tcp_connect'' else opt_scanType opts);
          ports = opt_ports opts
      in if length ports = 0
         then (Some (NewModuleError ''no valid ports to scan'' ''NO_PORTS''), s0)
         else
           let s1 = s0\<lparr>ps_out := SendResult (clock env) (ps_mod s0) (ps_out s0) ''progress''
                                    (PText (sprintf env ''Scanning %d ports on %s''
                                              [int (length ports)] @ target)) [] sessionID\<rparr>;
               s2 = scan_loop env opts sessionID ports s1;
               result = \<lparr>ps_Target = target, OpenPorts = sort_key Port (ps_open s2),
                         ClosedPorts = sort (ps_closed s2), TotalPorts = length ports,
                         ScanTime = elapsed env, ScanType = scanType\<rparr>;
               s3 = ps_SetStatus (clock env) ''completed'' 1
                      (sprintf env ''Scan completed: %d open ports found''
                         [int (length (OpenPorts result))]) s2;
               s4 = s3\<lparr>ps_out := SendResult (clock env) (ps_mod s3) (ps_out s3) ''complete''
                                    (PResult result)
                                    [(''open_ports'', MInt (int (length (OpenPorts result)))),
                                     (''scan_time'', MStr (ScanTime result))] sessionID\<rparr>
           in (None, s4))"

text \<open>
  \<^verbatim>\<open>ModuleAdapter.Execute\<close> for the port scan. The adapter passes an empty options
  map, so the module runs with what \<^verbatim>\<open>Execute\<close> puts in place of missing options:
  no service detection, no banner grabbing, the scan type left to its default, and the
  ports of \<^verbatim>\<open>parsePorts("common")\<close>. The output channel is fresh with capacity 100,
  the session is \<open>default\<close>, nothing receives from the channel while the module runs,
  and when the module returned no error everything the channel holds is collected.
\<close>

definition common_ports :: "int list" where
  "common_ports = [21, 22, 23, 25, 53, 80, 110, 111, 135, 139, 143, 443, 993, 995,
                   1723, 3306, 3389, 5432, 5900, 6379, 8080, 8443, 27017]"

definition adapter_opts :: port_opts where
  "adapter_opts = \<lparr>opt_serviceDetection = False, opt_bannerGrab = False, opt_scanType = '''',
     opt_ports = common_ports\<rparr>"

definition Adapter_Execute ::
  "port_env \<Rightarrow> BaseModule \<Rightarrow> string
     \<Rightarrow> (ModuleError + port_payload ModuleResult list) \<times> BaseModule" where
  "Adapter_Execute env b target =
     (let output = make_chan 100
      in case PortScan_Execute env adapter_opts b target ''default'' output of
           (Some err, s) \<Rightarrow> (Inl err, ps_mod s)
         | (None, s) \<Rightarrow> (Inr (queue (ps_out s)), ps_mod s))"

text \<open>The examples: a target on which every port, or only port 22, accepts connections.\<close>

definition env_all_open :: port_env where
  "env_all_open = \<lparr>scanPort = (\<lambda>p. True), detectService = (\<lambda>p. ''unknown''),
     grabBanner = (\<lambda>p. ''''), getServiceName = (\<lambda>p. ''unknown''), clock = 0, elapsed = ''1s'',
     sprintf = (\<lambda>f args. f)\<rparr>"

definition env_ssh_only :: port_env where
  "env_ssh_only = \<lparr>scanPort = (\<lambda>p. p = 22), detectService = (\<lambda>p. ''SSH''),
     grabBanner = (\<lambda>p. ''''), getServiceName = (\<lambda>p. ''SSH''), clock = 0, elapsed = ''1s'',
     sprintf = (\<lambda>f args. f)\<rparr>"

definition opts_ports :: "int list \<Rightarrow> port_opts" where
  "opts_ports ports = \<lparr>opt_serviceDetection = False, opt_bannerGrab = False, opt_scanType = '''',
     opt_ports = ports\<rparr>"

text \<open>The kinds and the progress values of a list of statuses, and the events of one type.\<close>

definition status_progress :: "ModuleStatus list \<Rightarrow> (string \<times> rat) list" where
  "status_progress tr = map (\<lambda>st. (Status st, Progress st)) tr"

definition events_of_type :: "string \<Rightarrow> 'd ModuleResult list \<Rightarrow> 'd ModuleResult list" where
  "events_of_type t rs = filter (\<lambda>r. res_Type r = t) rs"

text \<open>
  For the statements about a whole run: the ports whose goroutines are started (none when
  a stop token waits in the module at the start), the result built from them, and the
  events \<^verbatim>\<open>Execute\<close> tries to send.
\<close>

definition launched :: "BaseModule \<Rightarrow> port_opts \<Rightarrow> int list" where
  "launched b opts = (if queue (stopCh b) = [] then opt_ports opts else [])"

definition scan_result :: "port_env \<Rightarrow> port_opts \<Rightarrow> BaseModule \<Rightarrow> string \<Rightarrow> PortScanResult" where
  "scan_result env opts b target =
     \<lparr>ps_Target = target,
      OpenPorts = sort_key Port (map (open_portInfo env opts) (filter (scanPort env) (launched b opts))),
      ClosedPorts = sort (filter (\<lambda>p. \<not> scanPort env p) (launched b opts)),
      TotalPorts = length (opt_ports opts),
      ScanTime = elapsed env,
      ScanType = (if opt_scanType opts = '''' then ''tcp_connect'' else opt_scanType opts)\<rparr>"

definition event :: "port_env \<Rightarrow> BaseModule \<Rightarrow> string \<Rightarrow> string \<Rightarrow> port_payload
    \<Rightarrow> (string \<times> meta_value) list \<Rightarrow> port_payload ModuleResult" where
  "event env b sessionID resultType data metadata =
     \<lparr>res_Type = resultType, res_Data = data, res_Metadata = metadata, res_Timestamp = clock env,
      res_SessionID = sessionID, res_Module = info_Name b\<rparr>"

definition progress_event :: "port_env \<Rightarrow> port_opts \<Rightarrow> BaseModule \<Rightarrow> string \<Rightarrow> string
    \<Rightarrow> port_payload ModuleResult" where
  "progress_event env opts b target sessionID =
     event env b sessionID ''progress''
       (PText (sprintf env ''Scanning %d ports on %s'' [int (length (opt_ports opts))] @ target)) []"

definition data_events :: "port_env \<Rightarrow> port_opts \<Rightarrow> BaseModule \<Rightarrow> string
    \<Rightarrow> port_payload ModuleResult list" where
  "data_events env opts b sessionID =
     map (\<lambda>port. event env b sessionID ''data'' (POpenPort (open_portInfo env opts port)) [])
       (filter (scanPort env) (launched b opts))"

definition complete_event :: "port_env \<Rightarrow> port_opts \<Rightarrow> BaseModule \<Rightarrow> string \<Rightarrow> string
    \<Rightarrow> port_payload ModuleResult" where
  "complete_event env opts b target sessionID =
     event env b sessionID ''complete'' (PResult (scan_result env opts b target))
       [(''open_ports'', MInt (int (length (OpenPorts (scan_result env opts b target))))),
        (''scan_time'', MStr (elapsed env))]"

text \<open>The ports \<^verbatim>\<open>parsePorts("1-100")\<close> returns.\<close>

definition ports_1_to_100 :: "int list" where
  "ports_1_to_100 = [1..100]"

section \<open>The web enumeration\<close>

text \<open>
  \<^verbatim>\<open>PathInfo\<close>, \<^verbatim>\<open>VulnInfo\<close> and \<^verbatim>\<open>WebEnumResult\<close>. Strings are ordered as
  Go orders them, byte by byte.
\<close>

record PathInfo =
  Path :: string
  StatusCode :: int
  Size :: int
  ContentType :: string
  Title :: string
  path_ResponseTime :: string
  Headers :: "(string \<times> string) list"
  IsDirectory :: bool
  Technology :: "string list"

record VulnInfo =
  vuln_Type :: string
  vuln_Path :: string
  Severity :: string
  Description :: string

record WebEnumResult =
  web_Target :: string
  BaseURL :: string
  FoundPaths :: "PathInfo list"
  TotalTested :: nat
  web_ScanTime :: string
  TechStack :: "string list"
  Vulnerabilities :: "VulnInfo list"

datatype web_payload =
    WText string
  | WTechStack "string list"
  | WFoundPath PathInfo
  | WVuln VulnInfo
  | WResult WebEnumResult

text \<open>
  What the web enumeration gets from outside: whether \<^verbatim>\<open>url.Parse\<close> fails on the
  base URL (and with which message), the technologies detected, the path list that
  \<^verbatim>\<open>generatePaths\<close> builds from the word list and the extensions, the answer of
  \<^verbatim>\<open>testPath\<close> for a path, the findings of \<^verbatim>\<open>analyzeVulnerabilities\<close>, the clock and
  the formatting of messages.
\<close>

record web_env =
  url_Parse_error :: "string \<Rightarrow> string option"
  detectTechnologies :: "string \<Rightarrow> string list"
  generatePaths :: "string list"
  testPath :: "string \<Rightarrow> PathInfo option"
  analyzeVulnerabilities :: "PathInfo list \<Rightarrow> VulnInfo list"
  web_clock :: int
  web_elapsed :: string
  web_sprintf :: "string \<Rightarrow> int list \<Rightarrow> string"

record ws_state =
  ws_mod :: BaseModule
  ws_out :: "web_payload ModuleResult chan"
  ws_found :: "PathInfo list"
  ws_tested :: nat
  ws_trace :: "ModuleStatus list"

definition ws_SetStatus :: "int \<Rightarrow> string \<Rightarrow> rat \<Rightarrow> string \<Rightarrow> ws_state \<Rightarrow> ws_state" where
  "ws_SetStatus now st progress message s =
     (let b = SetStatus now (ws_mod s) st progress message
      in s\<lparr>ws_mod := b, ws_trace := ws_trace s @ [GetStatus b]\<rparr>)"

definition ws_SendResult ::
  "web_env \<Rightarrow> string \<Rightarrow> string \<Rightarrow> web_payload \<Rightarrow> ws_state \<Rightarrow> ws_state" where
  "ws_SendResult env sessionID resultType data s =
     s\<lparr>ws_out := SendResult (web_clock env) (ws_mod s) (ws_out s) resultType data [] sessionID\<rparr>"

text \<open>
  The goroutine of one path: a path that \<^verbatim>\<open>testPath\<close> finds is recorded and sent as a
  \<open>data\<close> event; then \<^verbatim>\<open>testedCount\<close> is incremented and the status set to
  \<open>running\<close> with progress \<^verbatim>\<open>0.3 + 0.6 * testedCount / len(paths)\<close>.
\<close>

definition path_goroutine :: "web_env \<Rightarrow> string \<Rightarrow> string \<Rightarrow> ws_state \<Rightarrow> ws_state" where
  "path_goroutine env sessionID path s =
     (let s1 = (case testPath env path of
                  Some pathInfo \<Rightarrow>
                    ws_SendResult env sessionID ''data'' (WFoundPath pathInfo)
                      (s\<lparr>ws_found := ws_found s @ [pathInfo]\<rparr>)
                | None \<Rightarrow> s);
          s2 = s1\<lparr>ws_tested := Suc (ws_tested s1)\<rparr>;
          progress = 3 / 10 + (6 / 10 * of_nat (ws_tested s2) / of_nat (length (generatePaths env)))
      in ws_SetStatus (web_clock env) ''running'' progress
           (web_sprintf env ''Tested %d/%d paths''
              [int (ws_tested s2), int (length (generatePaths env))]) s2)"

text \<open>The loop over the paths, with the goroutines run as in the port scan.\<close>

fun path_loop :: "web_env \<Rightarrow> string \<Rightarrow> string list \<Rightarrow> ws_state \<Rightarrow> ws_state" where
  "path_loop env sessionID [] s = s"
| "path_loop env sessionID (path # paths) s =
     (case IsStopped (ws_mod s) of
        (True, b) \<Rightarrow> s\<lparr>ws_mod := b\<rparr>
      | (False, b) \<Rightarrow>
          path_loop env sessionID paths (path_goroutine env sessionID path (s\<lparr>ws_mod := b\<rparr>)))"

definition WebEnum_Execute ::
  "web_env \<Rightarrow> BaseModule \<Rightarrow> string \<Rightarrow> string \<Rightarrow> web_payload ModuleResult chan
     \<Rightarrow> ModuleError option \<times> ws_state" where
  "WebEnum_Execute env b target sessionID output =
     (let now = web_clock env;
          s0 = ws_SetStatus now ''running'' 0 ''Starting web enumeration''
                 \<lparr>ws_mod = b, ws_out = output, ws_found = [], ws_tested = 0, ws_trace = []\<rparr>;
          baseURL = (if \<not> prefix ''http'' target then ''https://'' @ target else target)
      in case url_Parse_error env baseURL of
           Some msg \<Rightarrow> (Some (NewModuleError (''invalid URL: '' @ msg) ''INVALID_URL''), s0)
         | None \<Rightarrow>
             let s1 = ws_SetStatus now ''running'' (1 / 10) ''Detecting web technologies'' s0;
                 s2 = ws_SendResult env sessionID ''progress'' (WText ''Detecting web technologies'') s1;
                 techStack = detectTechnologies env baseURL;
                 s3 = ws_SendResult env sessionID ''data'' (WTechStack techStack) s2;
                 s4 = ws_SetStatus now ''running'' (2 / 10) ''Preparing wordlist'' s3;
                 paths = generatePaths env;
                 s5 = ws_SendResult env sessionID ''progress''
                        (WText (web_sprintf env ''Testing %d paths'' [int (length paths)])) s4;
                 s6 = ws_SetStatus now ''running'' (3 / 10) ''Enumerating web paths'' s5;
                 s7 = path_loop env sessionID paths s6;
                 s8 = ws_SetStatus now ''running'' (9 / 10)
                        ''Analyzing for common vulnerabilities'' s7;
                 vulns = analyzeVulnerabilities env (ws_found s8);
                 s9 = fold (\<lambda>vuln. ws_SendResult env sessionID ''data'' (WVuln vuln)) vulns s8;
                 result = \<lparr>web_Target = target, BaseURL = baseURL,
                           FoundPaths = sort_key Path (ws_found s9),
                           TotalTested = length paths, web_ScanTime = web_elapsed env,
                           TechStack = techStack, Vulnerabilities = vulns\<rparr>;
                 s10 = ws_SetStatus now ''completed'' 1
                         (web_sprintf env ''Web enumeration completed: %d paths found''
                            [int (length (FoundPaths result))]) s9;
                 s11 = s10\<lparr>ws_out := SendResult now (ws_mod s10) (ws_out s10) ''complete''
                                        (WResult result)
                                        [(''found_paths'', MInt (int (length (FoundPaths result)))),
                                         (''vulnerabilities'', MInt (int (length vulns))),
                                         (''scan_time'', MStr (web_ScanTime result))] sessionID\<rparr>
             in (None, s11))"

text \<open>
  The examples: a site on which \<open>/admin\<close> and \<open>/login\<close> exist, tested with four paths.
\<close>

definition found_path :: "string \<Rightarrow> PathInfo" where
  "found_path p = \<lparr>Path = p, StatusCode = 200, Size = 0, ContentType = ''text/html'', Title = '''',
     path_ResponseTime = '''', Headers = [], IsDirectory = False, Technology = []\<rparr>"

definition env_site :: web_env where
  "env_site = \<lparr>url_Parse_error = (\<lambda>u. None), detectTechnologies = (\<lambda>u. [''nginx'']),
     generatePaths = [''/login'', ''/backup'', ''/admin'', ''/test''],
     testPath = (\<lambda>p. if p = ''/admin'' \<or> p = ''/login'' then Some (found_path p) else None),
     analyzeVulnerabilities = (\<lambda>ps. []), web_clock = 0, web_elapsed = ''1s'',
     web_sprintf = (\<lambda>f args. f)\<rparr>"

text \<open>
  What holds of a list of statuses that is a record of non-decreasing progress: the
  progress values are sorted, and progress 1 comes only with the status \<open>completed\<close>.
\<close>

definition monotone_to_completed :: "(string \<times> rat) list \<Rightarrow> bool" where
  "monotone_to_completed tr = (sorted (map snd tr) \<and> (\<forall>(st, p) \<in> set tr. p = 1 \<longrightarrow> st = ''completed''))"

section \<open>Cancellation tokens are consumed\<close>

lemma stop_chan_ok_New: "stop_chan_ok (NewBaseModule name)"
  by (simp add: stop_chan_ok_def NewBaseModule_def make_chan_def)

lemma Stop_one_token:
  assumes "stop_chan_ok b"
  shows "length (queue (stopCh (Stop b))) = 1" and "stop_chan_ok (Stop b)"
  using assms
  by (cases "queue (stopCh b)"; simp add: stop_chan_ok_def Stop_def try_send_def Let_def)+

lemma IsStopped_token:
  assumes "stop_chan_ok b" and "length (queue (stopCh b)) = 1"
  shows "fst (IsStopped b) = True" and "queue (stopCh (snd (IsStopped b))) = []"
    and "stop_chan_ok (snd (IsStopped b))"
  using assms
  by (cases "queue (stopCh b)"; simp add: stop_chan_ok_def IsStopped_def try_recv_def)+

lemma IsStopped_no_token:
  assumes "queue (stopCh b) = []"
  shows "IsStopped b = (False, b)"
  using assms by (simp add: IsStopped_def try_recv_def)

lemma poll_no_token:
  assumes "queue (stopCh b) = []"
  shows "poll n b = (replicate n False, b)"
  using assms by (induction n) (simp_all add: IsStopped_no_token)

text \<open>
  Claim C10. The stop signal is not sticky. On a module whose stop channel is the
  one-slot channel of \<^verbatim>\<open>NewBaseModule\<close>, one call of \<^verbatim>\<open>Stop\<close> leaves exactly
  one token in the buffer (also when a token was already there); of any number of
  calls of \<^verbatim>\<open>IsStopped\<close> that follow, the first answers true and consumes the token
  and all later ones answer false; the channel is then empty and well formed again, so
  only another \<^verbatim>\<open>Stop\<close> makes \<^verbatim>\<open>IsStopped\<close> answer true once more.
\<close>

theorem stop_token_consumed_once:
  assumes "stop_chan_ok b"
  shows "length (queue (stopCh (Stop b))) = 1
       \<and> fst (poll (Suc n) (Stop b)) = True # replicate n False
       \<and> queue (stopCh (snd (poll (Suc n) (Stop b)))) = []
       \<and> stop_chan_ok (snd (poll (Suc n) (Stop b)))
       \<and> IsStopped (snd (poll (Suc n) (Stop b))) = (False, snd (poll (Suc n) (Stop b)))"
proof -
  let ?s = "Stop b"
  obtain r b1 where I: "IsStopped ?s = (r, b1)" by (cases "IsStopped ?s")
  have one: "length (queue (stopCh ?s)) = 1" and ok: "stop_chan_ok ?s"
    using Stop_one_token [OF assms] by simp_all
  have r: "r = True" and e: "queue (stopCh b1) = []" and ok1: "stop_chan_ok b1"
    using IsStopped_token [OF ok one] I by simp_all
  have p: "poll (Suc n) ?s = (True # replicate n False, b1)"
    using I r poll_no_token [OF e, of n] by simp
  show ?thesis
    using one p e ok1 IsStopped_no_token [OF e] by simp
qed

theorem stop_token_consumed_once_witness:
  "stop_chan_ok (NewBaseModule ''port_scan'')
   \<and> fst (poll 3 (Stop (NewBaseModule ''port_scan''))) = [True, False, False]
   \<and> fst (poll 3 (Stop (Stop (NewBaseModule ''port_scan'')))) = [True, False, False]"
proof -
  have h: "stop_chan_ok (NewBaseModule ''port_scan'')" by (rule stop_chan_ok_New)
  have h2: "stop_chan_ok (Stop (NewBaseModule ''port_scan''))"
    using Stop_one_token(2) [OF h] .
  have n3: "(3::nat) = Suc 2" by simp
  show ?thesis
    using h stop_token_consumed_once [OF h, of 2] stop_token_consumed_once [OF h2, of 2]
    by (simp add: n3 numeral_2_eq_2 del: poll.simps)
qed

section \<open>Cancelling a scan\<close>

lemma CancelScan_not_running:
  assumes "scans sm scanID = Some scan" and "scan_Status scan \<noteq> ''running''"
  shows "CancelScan sm scanID = (None, sm)"
  using assms by (simp add: CancelScan_def)

lemma CancelScan_unknown:
  assumes "scans sm scanID = None"
  shows "CancelScan sm scanID = (Some (''scan '' @ scanID @ '' not found''), sm)"
  using assms by (simp add: CancelScan_def)

lemma CancelScan_running:
  assumes "scans sm scanID = Some scan" and "scan_Status scan = ''running''"
  shows "CancelScan sm scanID =
           (None, sm\<lparr>scans := (scans sm)(scanID \<mapsto> scan\<lparr>scan_ctx_done := True, scan_Status := ''cancelled''\<rparr>),
                     effects := effects sm @
                       [CtxCancel scanID,
                        DbUpdate ''cancelled'' (scan_Progress scan) (scan_CompletedAt scan)
                          (scan_Error scan) (scan_ID scan)]\<rparr>)"
  using assms by (simp add: CancelScan_def updateScanInDB_def Let_def)

text \<open>
  Claim C8. For the id of a scan the manager holds: when the scan is not in status
  \<open>running\<close>, \<^verbatim>\<open>CancelScan\<close> returns no error and leaves the manager as it was; when
  it is \<open>running\<close>, the call returns no error, cancels the scan's context (the
  cancellation token), sets the status to \<open>cancelled\<close> and hands the scan with that
  status to \<^verbatim>\<open>updateScanInDB\<close>; nothing else of the manager changes.
\<close>

theorem CancelScan_noop_or_cancels:
  assumes "scans sm scanID = Some scan"
  shows "(scan_Status scan \<noteq> ''running'' \<longrightarrow> CancelScan sm scanID = (None, sm))
       \<and> (scan_Status scan = ''running'' \<longrightarrow>
            fst (CancelScan sm scanID) = None
          \<and> scans (snd (CancelScan sm scanID)) =
              (scans sm)(scanID \<mapsto> scan\<lparr>scan_ctx_done := True, scan_Status := ''cancelled''\<rparr>)
          \<and> effects (snd (CancelScan sm scanID)) =
              effects sm @ [CtxCancel scanID,
                            DbUpdate ''cancelled'' (scan_Progress scan) (scan_CompletedAt scan)
                              (scan_Error scan) (scan_ID scan)]
          \<and> app_modules (snd (CancelScan sm scanID)) = app_modules sm
          \<and> app_sessions (snd (CancelScan sm scanID)) = app_sessions sm)"
proof (cases "scan_Status scan = ''running''")
  case True
  show ?thesis using True CancelScan_running [OF assms True] by simp
next
  case False
  show ?thesis using False CancelScan_not_running [OF assms False] by simp
qed

lemma started_scan:
  "scans (snd (StartScan manager0 ''scan_1'' 0 ''s1'' ''domain_enum'' ''example.com'')) ''scan_1'' =
     Some \<lparr>scan_ID = ''scan_1'', scan_SessionID = ''s1'', scan_ModuleName = ''domain_enum'',
           scan_Target = ''example.com'', scan_Status = ''pending'', scan_Progress = 0,
           scan_StartedAt = 0, scan_CompletedAt = 0, scan_Results = Map.empty,
           scan_Error = '''', scan_ctx_done = False, scan_ticker = TickerWaiting\<rparr>"
  by (simp add: StartScan_def manager0_def Let_def)

lemma running_scan:
  "scans (on_scan (snd (StartScan manager0 ''scan_1'' 0 ''s1'' ''domain_enum'' ''example.com''))
            ''scan_1'' executeScan_start) ''scan_1'' =
     Some \<lparr>scan_ID = ''scan_1'', scan_SessionID = ''s1'', scan_ModuleName = ''domain_enum'',
           scan_Target = ''example.com'', scan_Status = ''running'',
           scan_Progress = float64 (1 / 10),
           scan_StartedAt = 0, scan_CompletedAt = 0, scan_Results = Map.empty,
           scan_Error = '''', scan_ctx_done = False, scan_ticker = TickerWaiting\<rparr>"
  by (simp add: on_scan_def started_scan executeScan_start_def Let_def)

theorem CancelScan_noop_or_cancels_witness:
  "CancelScan (snd (StartScan manager0 ''scan_1'' 0 ''s1'' ''domain_enum'' ''example.com'')) ''scan_1''
     = (None, snd (StartScan manager0 ''scan_1'' 0 ''s1'' ''domain_enum'' ''example.com''))
   \<and> map_option scan_Status
        (scans (snd (CancelScan
           (on_scan (snd (StartScan manager0 ''scan_1'' 0 ''s1'' ''domain_enum'' ''example.com''))
              ''scan_1'' executeScan_start) ''scan_1'')) ''scan_1'') = Some ''cancelled''"
  using CancelScan_noop_or_cancels [OF started_scan] CancelScan_noop_or_cancels [OF running_scan]
  by simp

section \<open>What executeScan does to a cancelled scan\<close>

text \<open>
  Claim C2, as stated, fails: a scan cancelled while \<open>running\<close> does not keep the status
  \<open>cancelled\<close>. When the module returns, \<^verbatim>\<open>executeScan\<close> sets the status from the
  module's result without looking at the status it replaces. Here the scan is started,
  cancelled while running, and the module then returns normally.
\<close>

theorem cancelled_scan_ends_completed:
  "map (status_of ''scan_1'')
     (scan_life manager0 ''scan_1'' 0 ''s1'' ''domain_enum'' ''example.com''
        [Cancel, Finish 5 (Returned ''r'')])
   = [''pending'', ''running'', ''cancelled'', ''completed'']"
  by code_simp

lemma on_scan_keeps:
  assumes "\<And>scan. scan_Status (fst (f scan)) = scan_Status scan"
  shows "status_of scanID (on_scan sm scanID f) = status_of scanID sm"
    and "app_modules (on_scan sm scanID f) = app_modules sm"
proof -
  show "app_modules (on_scan sm scanID f) = app_modules sm"
    by (simp add: on_scan_def split: option.splits prod.splits)
  show "status_of scanID (on_scan sm scanID f) = status_of scanID sm"
  proof (cases "scans sm scanID")
    case None
    then show ?thesis by (simp add: on_scan_def)
  next
    case (Some scan)
    obtain scan' es where f: "f scan = (scan', es)" by (cases "f scan")
    have "scan_Status scan' = scan_Status scan" using assms [of scan] f by simp
    then show ?thesis using Some f by (simp add: status_of_def on_scan_def)
  qed
qed

lemma tick_keeps_status:
  "scan_Status (fst (tick_test scan)) = scan_Status scan"
  "scan_Status (fst (tick_load scan)) = scan_Status scan"
  "scan_Status (fst (tick_store scan)) = scan_Status scan"
  "scan_Status (fst (tick_broadcast scan)) = scan_Status scan"
  by (simp_all add: tick_test_def tick_load_def tick_store_def tick_broadcast_def
        split: ticker.splits)

lemma cancel_keeps_cancelled:
  assumes "status_of scanID sm = ''cancelled''"
  shows "snd (CancelScan sm scanID) = sm"
  using assms
  by (cases "scans sm scanID") (simp_all add: status_of_def CancelScan_def)

lemma action_keeps_cancelled:
  assumes "status_of scanID sm = ''cancelled''" and "before_return [a]"
  shows "status_of scanID (apply_action scanID sm a) = ''cancelled''
       \<and> app_modules (apply_action scanID sm a) = app_modules sm"
  using assms cancel_keeps_cancelled [OF assms(1)]
  by (cases a) (simp_all add: on_scan_keeps tick_keeps_status before_return_def)

lemma run_keeps_status:
  assumes "status_of scanID sm = ''cancelled''" and "before_return as"
  shows "\<forall>sm' \<in> set (run scanID sm as).
           status_of scanID sm' = ''cancelled'' \<and> app_modules sm' = app_modules sm"
  using assms
proof (induction as arbitrary: sm)
  case Nil
  then show ?case by simp
next
  case (Cons a as)
  have a: "before_return [a]" and as: "before_return as"
    using Cons.prems(2) by (simp_all add: before_return_def)
  note s = action_keeps_cancelled [OF Cons.prems(1) a]
  have "\<forall>sm' \<in> set (run scanID (apply_action scanID sm a) as).
          status_of scanID sm' = ''cancelled'' \<and> app_modules sm' = app_modules sm"
    using Cons.IH [of "apply_action scanID sm a"] s as by simp
  then show ?case using Cons.prems(1) by simp
qed

text \<open>
  When the progress goroutine is waiting for its next tick at the moment of the cancel,
  its test fails from then on and nothing at all changes.
\<close>

lemma waiting_tick_keeps_cancelled:
  assumes "scans sm scanID = Some scan" and "scan_Status scan = ''cancelled''"
    and "scan_ticker scan = TickerWaiting"
  shows "on_scan sm scanID tick_test = sm" and "on_scan sm scanID tick_load = sm"
    and "on_scan sm scanID tick_store = sm" and "on_scan sm scanID tick_broadcast = sm"
  using assms
  by (simp_all add: on_scan_def tick_test_def tick_load_def tick_store_def tick_broadcast_def
        map_upd_triv)

lemma run_keeps_cancelled:
  assumes "scans sm scanID = Some scan" and "scan_Status scan = ''cancelled''"
    and "scan_ticker scan = TickerWaiting" and "before_return as"
  shows "set (run scanID sm as) = {sm}"
  using assms
proof (induction as)
  case Nil
  then show ?case by simp
next
  case (Cons a as)
  have c: "status_of scanID sm = ''cancelled''"
    using Cons.prems(1,2) by (simp add: status_of_def)
  have "apply_action scanID sm a = sm"
    using Cons.prems(4) waiting_tick_keeps_cancelled [OF Cons.prems(1,2,3)]
      cancel_keeps_cancelled [OF c]
    by (cases a) (simp_all add: before_return_def)
  moreover have "before_return as" using Cons.prems(4) by (simp add: before_return_def)
  ultimately show ?case using Cons by simp
qed

text \<open>
  Claim C2, amended. When \<^verbatim>\<open>CancelScan\<close> is called for a scan in status \<open>running\<close>,
  the scan's context is cancelled and the status \<open>cancelled\<close> is recorded and handed to
  \<^verbatim>\<open>updateScanInDB\<close>; the registered modules are exactly as before the call, so no
  module has been told to stop and the execution task goes on waiting for
  \<^verbatim>\<open>module.Execute\<close> to return; and as long as it has not returned, the steps of the
  progress goroutine and further calls of \<^verbatim>\<open>CancelScan\<close> leave the status \<open>cancelled\<close>
  and the registered modules as they are. When the progress goroutine was waiting for
  its next tick at the moment of the cancel, they change nothing at all: the manager stays
  as the first call left it. (A tick that had passed its test before the cancel still
  writes its progress value.)
\<close>

theorem cancel_recorded_until_module_returns:
  assumes "scans sm scanID = Some scan" and "scan_Status scan = ''running''"
    and "before_return as"
  shows "status_of scanID (snd (CancelScan sm scanID)) = ''cancelled''
       \<and> map_option scan_ctx_done (scans (snd (CancelScan sm scanID)) scanID) = Some True
       \<and> effects (snd (CancelScan sm scanID)) =
           effects sm @ [CtxCancel scanID,
                         DbUpdate ''cancelled'' (scan_Progress scan) (scan_CompletedAt scan)
                           (scan_Error scan) (scan_ID scan)]
       \<and> app_modules (snd (CancelScan sm scanID)) = app_modules sm
       \<and> (\<forall>sm' \<in> set (run scanID (snd (CancelScan sm scanID)) as).
             status_of scanID sm' = ''cancelled'' \<and> app_modules sm' = app_modules sm)
       \<and> (scan_ticker scan = TickerWaiting \<longrightarrow>
             set (run scanID (snd (CancelScan sm scanID)) as) = {snd (CancelScan sm scanID)})"
proof -
  let ?sm = "snd (CancelScan sm scanID)"
  let ?scan = "scan\<lparr>scan_ctx_done := True, scan_Status := ''cancelled''\<rparr>"
  note r = CancelScan_running [OF assms(1,2)]
  have c: "status_of scanID ?sm = ''cancelled''"
    using r by (simp add: status_of_def)
  have m: "app_modules ?sm = app_modules sm" using r by simp
  have s: "scans ?sm scanID = Some ?scan" using r by simp
  have 1: "\<forall>sm' \<in> set (run scanID ?sm as).
             status_of scanID sm' = ''cancelled'' \<and> app_modules sm' = app_modules sm"
    using run_keeps_status [OF c assms(3)] m by simp
  have 2: "scan_ticker scan = TickerWaiting \<longrightarrow> set (run scanID ?sm as) = {?sm}"
  proof
    assume w: "scan_ticker scan = TickerWaiting"
    show "set (run scanID ?sm as) = {?sm}"
      by (rule run_keeps_cancelled [OF s _ _ assms(3)]) (simp_all add: w)
  qed
  have 3: "map_option scan_ctx_done (scans ?sm scanID) = Some True" using s by simp
  have 4: "effects ?sm = effects sm @ [CtxCancel scanID,
                         DbUpdate ''cancelled'' (scan_Progress scan) (scan_CompletedAt scan)
                           (scan_Error scan) (scan_ID scan)]"
    using r by simp
  show ?thesis using c 1 2 3 4 m by blast
qed

theorem cancel_recorded_until_module_returns_witness:
  "status_of ''scan_1''
     (snd (CancelScan
        (on_scan (snd (StartScan manager0 ''scan_1'' 0 ''s1'' ''domain_enum'' ''example.com''))
           ''scan_1'' executeScan_start) ''scan_1'')) = ''cancelled''
   \<and> set (run ''scan_1''
        (snd (CancelScan
           (on_scan (snd (StartScan manager0 ''scan_1'' 0 ''s1'' ''domain_enum'' ''example.com''))
              ''scan_1'' executeScan_start) ''scan_1''))
        [TickTest, TickLoad, Cancel, TickStore, TickBroadcast, TickTest])
     = {snd (CancelScan
           (on_scan (snd (StartScan manager0 ''scan_1'' 0 ''s1'' ''domain_enum'' ''example.com''))
              ''scan_1'' executeScan_start) ''scan_1'')}"
proof -
  have h: "before_return [TickTest, TickLoad, Cancel, TickStore, TickBroadcast, TickTest :: string action]"
    by (simp add: before_return_def)
  have r: "scan_Status \<lparr>scan_ID = ''scan_1'', scan_SessionID = ''s1'', scan_ModuleName = ''domain_enum'',
           scan_Target = ''example.com'', scan_Status = ''running'',
           scan_Progress = float64 (1 / 10),
           scan_StartedAt = 0, scan_CompletedAt = 0, scan_Results = Map.empty :: string \<rightharpoonup> string,
           scan_Error = '''', scan_ctx_done = False, scan_ticker = TickerWaiting\<rparr> = ''running''" by simp
  have w: "scan_ticker \<lparr>scan_ID = ''scan_1'', scan_SessionID = ''s1'', scan_ModuleName = ''domain_enum'',
           scan_Target = ''example.com'', scan_Status = ''running'',
           scan_Progress = float64 (1 / 10),
           scan_StartedAt = 0, scan_CompletedAt = 0, scan_Results = Map.empty :: string \<rightharpoonup> string,
           scan_Error = '''', scan_ctx_done = False, scan_ticker = TickerWaiting\<rparr> = TickerWaiting" by simp
  show ?thesis
    using cancel_recorded_until_module_returns [OF running_scan r h] w by blast
qed

section \<open>Starting a scan on a target the module rejects\<close>

text \<open>
  Claim C5 at the input \<^verbatim>\<open>StartScan("s1", "domain_enum", "not a domain", {})\<close>.
  The module's \<^verbatim>\<open>Validate\<close> rejects the target, yet \<^verbatim>\<open>StartScan\<close> returns a scan
  and no error, stores the scan, starts the execution goroutine, and the scan goes
  through status \<open>running\<close>: \<^verbatim>\<open>StartScan\<close> looks the module up and never calls its
  \<^verbatim>\<open>Validate\<close>.
\<close>

theorem StartScan_runs_rejected_target:
  "map_option (\<lambda>m. mod_Validate m ''not a domain'') (app_modules manager0 ''domain_enum'')
     = Some (Some (NewModuleError ''invalid domain format'' ''INVALID_DOMAIN''))
   \<and> isl (fst (StartScan manager0 ''scan_1'' 0 ''s1'' ''domain_enum'' ''not a domain'')) = False
   \<and> effects (snd (StartScan manager0 ''scan_1'' 0 ''s1'' ''domain_enum'' ''not a domain''))
       = [DbInsert ''scan_1'' ''s1'' ''domain_enum'' ''not a domain'' ''pending'' 0 0,
          GoExecuteScan ''scan_1'']
   \<and> map (status_of ''scan_1'')
        (scan_life manager0 ''scan_1'' 0 ''s1'' ''domain_enum'' ''not a domain'' [])
       = [''pending'', ''running'']"
  by (simp add: manager0_def domain_module_def DomainEnum_Validate_def ValidateInput_def
        isValidDomain_def StartScan_def storeScanInDB_def scan_life_def status_of_def on_scan_def
        executeScan_start_def Let_def)

section \<open>The merge step on two findings of one address\<close>

lemma merge_body_found:
  assumes "heap st v = Some incoming" and "emailMap st (Email incoming) = Some p"
    and "heap st p = Some existing"
  shows "heap (merge_body v st) =
           (heap st)(p \<mapsto> existing\<lparr>Sources := Sources existing @ Sources incoming,
                                    Confidence := max (Confidence existing) (Confidence incoming)\<rparr>)"
    and "emailMap (merge_body v st) = emailMap st"
    and "next_addr (merge_body v st) = next_addr st"
  using assms by (cases "p = v"; simp add: merge_body_def assign_at_def Let_def)+

lemma merge_body_new:
  assumes "heap st v = Some incoming" and "emailMap st (Email incoming) = None"
  shows "merge_body v st = st\<lparr>emailMap := (emailMap st)(Email incoming \<mapsto> v)\<rparr>"
  using assms by (simp add: merge_body_def)

text \<open>
  The branch that merges does to the two records it is given what the merge rule says:
  the record behind the map's pointer gets the larger of the two confidences and the
  source list of \<open>existing\<close> followed by that of \<open>incoming\<close>, and keeps every other
  field. Here \<open>incoming\<close> is what the loop variable holds when the body runs and
  \<open>existing\<close> what the pointer then leads to.
\<close>

lemma merge_body_max_union_keep:
  assumes "heap st v = Some incoming" and "emailMap st (Email incoming) = Some p"
    and "heap st p = Some existing"
  shows "\<exists>m. record_at (merge_body v st) (Email incoming) = Some m
       \<and> Confidence m = max (Confidence existing) (Confidence incoming)
       \<and> Sources m = Sources existing @ Sources incoming
       \<and> Email m = Email existing \<and> Name m = Name existing \<and> Position m = Position existing
       \<and> Department m = Department existing \<and> LastSeen m = LastSeen existing"
  using merge_body_found [OF assms] assms(2) by (simp add: record_at_def)

text \<open>
  Claim C3 at two findings of one technique for the same address, in a build with one
  variable for the whole loop (the language version the README names, Go 1.21). The
  first finding is new, so the map gets the address of the loop variable; the second
  iteration assigns the second finding to that variable before its body runs, so the
  pointer then leads to the second finding itself, which is merged with itself. For
  the website crawl that finds the address on the pages \<^verbatim>\<open>/\<close> and \<^verbatim>\<open>/contact\<close> the
  merged record has the label of \<^verbatim>\<open>/contact\<close> twice and that of \<^verbatim>\<open>/\<close> not at all; for
  two Hunter.io entries with confidence 90 and 50 it has confidence 50, the second
  entry's label twice, and none of the first entry's name, position, department and
  label. With a variable for each iteration (Go 1.22 and later) the same loops give the
  union of the labels, the larger confidence and the first finding's fields.
\<close>

theorem second_finding_replaces_the_first:
  "merged False [alice_on_pages] ''alice@example.com''
     = Some \<lparr>Email = ''alice@example.com'', Name = '''', Position = '''', Department = '''',
         Sources = [''Website: /contact'', ''Website: /contact''], Confidence = 85,
         LastSeen = ''2024-01-01''\<rparr>
   \<and> merged False [alice_twice_at_hunter] ''alice@example.com''
     = Some \<lparr>Email = ''alice@example.com'', Name = '''', Position = '''', Department = '''',
         Sources = [''Hunter.io'', ''Hunter.io''], Confidence = 50, LastSeen = ''2024-01-01''\<rparr>
   \<and> merged True [alice_on_pages] ''alice@example.com''
     = Some \<lparr>Email = ''alice@example.com'', Name = '''', Position = '''', Department = '''',
         Sources = [''Website: /'', ''Website: /contact''], Confidence = 85,
         LastSeen = ''2024-01-01''\<rparr>
   \<and> merged True [alice_twice_at_hunter] ''alice@example.com''
     = Some \<lparr>Email = ''alice@example.com'', Name = ''Alice Smith'', Position = ''CTO'',
         Department = ''it'', Sources = [''example.com/team'', ''Hunter.io'', ''Hunter.io''],
         Confidence = 90, LastSeen = ''2024-01-01''\<rparr>"
  by code_simp

section \<open>Merging the techniques in another order\<close>

text \<open>
  Claim C4, as stated, fails: the merged mapping depends on the order of the techniques.
  The search engines and Hunter.io both find \<open>alice@example.com\<close>; whichever is merged
  first supplies the name, position and department, and its labels come first in the
  source list. This is so with either kind of loop variable.
\<close>

theorem merge_depends_on_order:
  "merged True [[alice_google], [alice_hunter]] ''alice@example.com''
     = Some \<lparr>Email = ''alice@example.com'', Name = '''', Position = '''', Department = '''',
         Sources = [''Google Search'', ''example.com'', ''Hunter.io''], Confidence = 85,
         LastSeen = ''2024-01-01''\<rparr>
   \<and> merged True [[alice_hunter], [alice_google]] ''alice@example.com''
     = Some \<lparr>Email = ''alice@example.com'', Name = ''Alice Smith'', Position = ''CTO'',
         Department = ''it'', Sources = [''example.com'', ''Hunter.io'', ''Google Search''],
         Confidence = 85, LastSeen = ''2024-01-01''\<rparr>
   \<and> merged False [[alice_google], [alice_hunter]] ''alice@example.com''
     = merged True [[alice_google], [alice_hunter]] ''alice@example.com''
   \<and> merged False [[alice_hunter], [alice_google]] ''alice@example.com''
     = merged True [[alice_hunter], [alice_google]] ''alice@example.com''"
  by code_simp

lemma pointers_ok_empty: "pointers_ok empty_state"
  by (simp add: pointers_ok_def empty_state_def)

lemma pointers_ok_alloc:
  assumes "pointers_ok st"
  shows "pointers_ok (st\<lparr>next_addr := Suc (next_addr st)\<rparr>)"
    and "record_at (st\<lparr>next_addr := Suc (next_addr st)\<rparr>) = record_at st"
  using assms by (auto simp: pointers_ok_def record_at_def fun_eq_iff less_Suc_eq split: option.splits)

lemma iteration_fresh:
  fixes st :: merge_state and x :: EmailInfo
  assumes ok: "pointers_ok st"
  defines "st1 \<equiv> st\<lparr>heap := (heap st)(next_addr st \<mapsto> x), next_addr := Suc (next_addr st)\<rparr>"
  shows "pointers_ok (merge_body (next_addr st) st1)
       \<and> record_at (merge_body (next_addr st) st1) = merge_value x (record_at st)
       \<and> next_addr (merge_body (next_addr st) st1) = Suc (next_addr st)"
proof -
  let ?w = "next_addr st"
  have hw: "heap st1 ?w = Some x" by (simp add: st1_def)
  have lt: "\<And>k p. emailMap st k = Some p \<Longrightarrow> p < ?w \<and> heap st p \<noteq> None"
    using ok by (simp add: pointers_ok_def)
  have nw: "\<And>k. emailMap st k \<noteq> Some ?w"
    using lt by blast
  have inj: "\<And>k k' p. emailMap st k = Some p \<Longrightarrow> emailMap st k' = Some p \<Longrightarrow> k = k'"
    using ok unfolding pointers_ok_def inj_on_def by (metis domI)
  show ?thesis
  proof (cases "emailMap st (Email x)")
    case None
    then have mb: "merge_body ?w st1 = st1\<lparr>emailMap := (emailMap st)(Email x \<mapsto> ?w)\<rparr>"
      using merge_body_new [OF hw] by (simp add: st1_def)
    have a: "pointers_ok (merge_body ?w st1)"
      unfolding mb pointers_ok_def inj_on_def
      using lt inj nw by (auto simp: st1_def less_Suc_eq split: if_splits)
    have b: "record_at (merge_body ?w st1) = merge_value x (record_at st)"
      unfolding mb using None lt
      by (auto simp: record_at_def merge_value_def st1_def fun_eq_iff split: option.splits)
    have c: "next_addr (merge_body ?w st1) = Suc ?w" unfolding mb by (simp add: st1_def)
    show ?thesis using a b c by simp
  next
    case (Some p)
    then obtain e where e: "heap st p = Some e" and pw: "p < ?w" using lt by blast
    have 1: "emailMap st1 (Email x) = Some p" using Some by (simp add: st1_def)
    have 2: "heap st1 p = Some e" using e pw by (simp add: st1_def)
    note mb = merge_body_found [OF hw 1 2]
    have a: "pointers_ok (merge_body ?w st1)"
      using ok lt unfolding pointers_ok_def mb
      by (auto simp: st1_def less_Suc_eq)
    have b: "record_at (merge_body ?w st1) = merge_value x (record_at st)"
    proof
      fix k
      show "record_at (merge_body ?w st1) k = merge_value x (record_at st) k"
      proof (cases "k = Email x")
        case True
        then show ?thesis using Some e pw unfolding record_at_def mb
          by (simp add: merge_value_def st1_def)
      next
        case False
        then show ?thesis using Some e pw lt [of k] inj [of k _ "Email x"]
          unfolding record_at_def mb
          by (auto simp: merge_value_def st1_def split: option.splits)
      qed
    qed
    have c: "next_addr (merge_body ?w st1) = Suc ?w" unfolding mb by (simp add: st1_def)
    show ?thesis using a b c by simp
  qed
qed

lemma merge_loop_fresh:
  assumes "pointers_ok st"
  shows "pointers_ok (merge_loop True v xs st)
       \<and> record_at (merge_loop True v xs st) = fold merge_value xs (record_at st)"
  using assms
proof (induction xs arbitrary: st)
  case Nil
  then show ?case by simp
next
  case (Cons x xs)
  let ?st1 = "merge_body (next_addr st)
                (st\<lparr>heap := (heap st)(next_addr st \<mapsto> x), next_addr := Suc (next_addr st)\<rparr>)"
  have s: "pointers_ok ?st1" and r: "record_at ?st1 = merge_value x (record_at st)"
    using iteration_fresh [OF Cons.prems, of x] by simp_all
  have "merge_loop True v (x # xs) st = merge_loop True v xs ?st1" by (simp add: Let_def)
  then show ?case using Cons.IH [OF s] r by simp
qed

lemma merge_phase_by_value:
  assumes "pointers_ok st" and "per_iteration \<or> length xs \<le> 1"
  shows "pointers_ok (merge_phase per_iteration xs st)
       \<and> record_at (merge_phase per_iteration xs st) = fold merge_value xs (record_at st)"
proof (cases per_iteration)
  case True
  show ?thesis
    using True pointers_ok_alloc [OF assms(1)]
      merge_loop_fresh [of "st\<lparr>next_addr := Suc (next_addr st)\<rparr>" "next_addr st" xs]
    by (simp add: merge_phase_def Let_def)
next
  case False
  with assms(2) have len: "length xs \<le> 1" by simp
  show ?thesis
  proof (cases xs)
    case Nil
    then show ?thesis using pointers_ok_alloc [OF assms(1)] by (simp add: merge_phase_def Let_def)
  next
    case (Cons x ys)
    with len have xs: "xs = [x]" by simp
    have "merge_phase False xs st =
            merge_body (next_addr st)
              (st\<lparr>heap := (heap st)(next_addr st \<mapsto> x), next_addr := Suc (next_addr st)\<rparr>)"
      by (cases st) (simp add: xs merge_phase_def Let_def)
    then show ?thesis using False iteration_fresh [OF assms(1), of x] by (simp add: xs)
  qed
qed

lemma merge_techniques_by_value:
  assumes "pointers_ok st" and "per_iteration \<or> (\<forall>xs \<in> set techniques. length xs \<le> 1)"
  shows "pointers_ok (fold (merge_phase per_iteration) techniques st)
       \<and> record_at (fold (merge_phase per_iteration) techniques st)
           = fold merge_value (concat techniques) (record_at st)"
  using assms
proof (induction techniques arbitrary: st)
  case Nil
  then show ?case by simp
next
  case (Cons xs techniques)
  have h: "per_iteration \<or> length xs \<le> 1" using Cons.prems(2) by auto
  have t: "per_iteration \<or> (\<forall>xs \<in> set techniques. length xs \<le> 1)" using Cons.prems(2) by auto
  note p = merge_phase_by_value [OF Cons.prems(1) h]
  show ?case using Cons.IH [OF conjunct1 [OF p] t] p by simp
qed

lemma evidence_merge_value: "evidence (merge_value x m) = add_evidence x (evidence m)"
  by (auto simp: evidence_def merge_value_def add_evidence_def fun_eq_iff split: option.splits)

lemma add_evidence_commute: "add_evidence x \<circ> add_evidence y = add_evidence y \<circ> add_evidence x"
  by (auto simp: add_evidence_def fun_eq_iff max.commute max.left_commute add.commute
        add.left_commute split: option.splits)

lemma evidence_fold: "evidence (fold merge_value xs m) = fold add_evidence xs (evidence m)"
  by (rule fold_commute_apply [where h = evidence and g = merge_value and f = add_evidence])
    (simp add: fun_eq_iff evidence_merge_value)

lemma mset_concat_permuted:
  assumes "mset xss = mset yss"
  shows "mset (concat xss) = mset (concat yss)"
proof -
  have "\<And>zss :: 'a list list. mset (concat zss) = sum_mset (image_mset mset (mset zss))"
    by (simp add: mset_concat flip: sum_mset_sum_list)
  then show ?thesis using assms by simp
qed

lemma merged_evidence:
  assumes "per_iteration \<or> (\<forall>xs \<in> set techniques. length xs \<le> 1)"
  shows "evidence (merged per_iteration techniques) = fold add_evidence (concat techniques) Map.empty"
proof -
  have e: "record_at empty_state = Map.empty"
    by (simp add: record_at_def empty_state_def fun_eq_iff)
  have "merged per_iteration techniques = fold merge_value (concat techniques) Map.empty"
    using merge_techniques_by_value [OF pointers_ok_empty assms] e
    by (simp add: merged_def merge_techniques_def fun_eq_iff)
  moreover have "evidence Map.empty = Map.empty" by (simp add: evidence_def fun_eq_iff)
  ultimately show ?thesis by (simp add: evidence_fold)
qed

text \<open>
  Claim C4, amended. Let the same per-technique finding lists be merged in two orders,
  with per-iteration loop variables (Go 1.22 or later) or, with the single loop variable
  of earlier versions, with at most one finding in each list, as in the example of three
  techniques that each find \<open>alice@example.com\<close>. Then both merged maps have the same
  email addresses, and for each of them the same confidence and the same source labels, as
  sets and even counted with repetitions. (The order of the labels within the source
  list and the other fields are those of the first finding merged for the email address, and
  may differ.)
\<close>

theorem merge_order_keeps_confidence_and_sources:
  assumes "mset techniques = mset techniques'"
    and "per_iteration \<or> (\<forall>xs \<in> set techniques. length xs \<le> 1)"
  shows "dom (merged per_iteration techniques) = dom (merged per_iteration techniques')
       \<and> (\<forall>k e e'. merged per_iteration techniques k = Some e
             \<longrightarrow> merged per_iteration techniques' k = Some e'
             \<longrightarrow> Confidence e = Confidence e'
               \<and> set (Sources e) = set (Sources e')
               \<and> mset (Sources e) = mset (Sources e'))"
proof -
  have s: "set techniques = set techniques'" using assms(1) by (rule mset_eq_setD)
  have h': "per_iteration \<or> (\<forall>xs \<in> set techniques'. length xs \<le> 1)" using assms(2) s by simp
  have c: "mset (concat techniques) = mset (concat techniques')"
    using mset_concat_permuted [OF assms(1)] .
  have "fold add_evidence (concat techniques) = fold add_evidence (concat techniques')"
    using add_evidence_commute c by (rule fold_multiset_equiv)
  then have ev: "evidence (merged per_iteration techniques) = evidence (merged per_iteration techniques')"
    using merged_evidence [OF assms(2)] merged_evidence [OF h'] by simp
  have ek: "evidence (merged per_iteration techniques) k = evidence (merged per_iteration techniques') k"
    for k using ev by simp
  have d: "dom (merged per_iteration techniques) = dom (merged per_iteration techniques')"
  proof (rule set_eqI)
    fix k
    show "k \<in> dom (merged per_iteration techniques) \<longleftrightarrow> k \<in> dom (merged per_iteration techniques')"
      using ek [of k]
      by (cases "merged per_iteration techniques k"; cases "merged per_iteration techniques' k")
        (simp_all add: evidence_def dom_def)
  qed
  have v: "Confidence e = Confidence e' \<and> set (Sources e) = set (Sources e')
           \<and> mset (Sources e) = mset (Sources e')"
    if a: "merged per_iteration techniques k = Some e"
      and b: "merged per_iteration techniques' k = Some e'"
    for k e e'
  proof -
    have m: "Confidence e = Confidence e' \<and> mset (Sources e) = mset (Sources e')"
      using ek [of k] a b by (simp add: evidence_def)
    then have "set (Sources e) = set (Sources e')" using mset_eq_setD by blast
    with m show ?thesis by simp
  qed
  show ?thesis
  proof (intro conjI allI impI)
    show "dom (merged per_iteration techniques) = dom (merged per_iteration techniques')" by (rule d)
  next
    fix k e e'
    assume a: "merged per_iteration techniques k = Some e"
      and b: "merged per_iteration techniques' k = Some e'"
    show "Confidence e = Confidence e'" using v [OF a b] by simp
    show "set (Sources e) = set (Sources e')" using v [OF a b] by simp
    show "mset (Sources e) = mset (Sources e')" using v [OF a b] by simp
  qed
qed

theorem merge_order_keeps_confidence_and_sources_witness:
  "mset [[alice_website], [alice_hunter], [alice_google]]
     = mset [[alice_google], [alice_website], [alice_hunter]]
   \<and> map_option Confidence
       (merged False [[alice_website], [alice_hunter], [alice_google]] ''alice@example.com'') = Some 85
   \<and> map_option Confidence
       (merged False [[alice_google], [alice_website], [alice_hunter]] ''alice@example.com'') = Some 85
   \<and> map_option (\<lambda>e. set (Sources e))
       (merged False [[alice_google], [alice_website], [alice_hunter]] ''alice@example.com'')
     = Some {''Website: /contact'', ''example.com'', ''Hunter.io'', ''Google Search''}"
proof -
  let ?t = "[[alice_website], [alice_hunter], [alice_google]]"
  let ?t' = "[[alice_google], [alice_website], [alice_hunter]]"
  let ?e = "\<lparr>Email = ''alice@example.com'', Name = '''', Position = '''', Department = '''',
        Sources = [''Website: /contact'', ''example.com'', ''Hunter.io'', ''Google Search''],
        Confidence = 85, LastSeen = ''2024-01-01''\<rparr>"
  have p: "mset ?t = mset ?t'" by (simp add: add.commute)
  have one: "False \<or> (\<forall>xs \<in> set ?t. length xs \<le> 1)" by simp
  have v: "merged False ?t ''alice@example.com'' = Some ?e"
    by code_simp
  note t = merge_order_keeps_confidence_and_sources [OF p one]
  have "''alice@example.com'' \<in> dom (merged False ?t')"
    using t v by blast
  then obtain e' where e': "merged False ?t' ''alice@example.com'' = Some e'"
    by blast
  have "Confidence ?e = Confidence e' \<and> set (Sources ?e) = set (Sources e')"
    using t v e' by blast
  then have "Confidence e' = 85
      \<and> set (Sources e') = {''Website: /contact'', ''example.com'', ''Hunter.io'', ''Google Search''}"
    by simp
  then show ?thesis using p v e' by simp
qed

section \<open>At most as many checks in flight as the semaphore has slots\<close>

lemma slots_ok_start: "slots_ok (thread_limit dflt threads) (fanout_start candidates dflt threads)"
  by (simp add: slots_ok_def fanout_start_def make_chan_def)

lemma length_remove_nth: "i < length xs \<Longrightarrow> length (remove_nth i xs) = length xs - 1"
  by (simp add: remove_nth_def)

lemma fan_step_slots_ok:
  assumes "slots_ok L s" and "fan_step e s = Some s'" and "alone [e]"
  shows "slots_ok L s'"
proof (cases e)
  case (Execute_again threads)
  then show ?thesis using assms(3) by (simp add: alone_def)
next
  case Launch
  then show ?thesis using assms by (auto simp: slots_ok_def split: list.splits)
next
  case Break
  then show ?thesis using assms by (auto simp: slots_ok_def split: if_splits)
next
  case (Acquire i)
  then show ?thesis using assms
    by (auto simp: slots_ok_def chan_send_def split: if_splits)
next
  case (Release i)
  then show ?thesis using assms
    by (cases "queue (semaphore s)")
       (auto simp: slots_ok_def chan_recv_def length_remove_nth split: if_splits)
qed

lemma fan_run_slots_ok:
  assumes "slots_ok L s" and "fan_run es s = Some s'" and "alone es"
  shows "slots_ok L s'"
  using assms
proof (induction es arbitrary: s)
  case Nil
  then show ?case by simp
next
  case (Cons e es)
  then obtain s1 where s1: "fan_step e s = Some s1" and r: "fan_run es s1 = Some s'"
    by (auto split: option.splits)
  have e: "alone [e]" and es: "alone es" using Cons.prems(3) by (simp_all add: alone_def)
  show ?case using Cons.IH [OF fan_step_slots_ok [OF Cons.prems(1) s1 e] r es] .
qed

lemma acquire_enabled:
  assumes "slots_ok L s" and "length (in_flight s) < L" and "i < length (waiting s)"
  shows "\<exists>s'. fan_step (Acquire i) s = Some s' \<and> in_flight s' = in_flight s @ [waiting s ! i]"
  using assms by (simp add: slots_ok_def chan_send_def)

lemma release_enabled:
  assumes "slots_ok L s" and "i < length (in_flight s)"
  shows "\<exists>s'. fan_step (Release i) s = Some s' \<and> length (in_flight s') < L
             \<and> waiting s' = waiting s"
  using assms
  by (cases "queue (semaphore s)") (auto simp: slots_ok_def chan_recv_def length_remove_nth)

text \<open>
  A call of \<^verbatim>\<open>Execute\<close> that has the module to itself keeps the limit. Take any
  candidates, any value of the \<^verbatim>\<open>threads\<close> option (the limit \<open>L\<close> is that value, or the
  module's positive default when the value is not positive), and any sequence of steps
  of the loop and of its goroutines. In the state reached the number of checks in
  flight is at most \<open>L\<close>. Moreover a check in flight can always finish and give its slot
  back, after which fewer than \<open>L\<close> checks are in flight, and whenever fewer than \<open>L\<close>
  are in flight every waiting goroutine can take a slot and start its check: as a check
  finishes, a pending candidate is admitted.
\<close>

lemma single_Execute_bounded:
  assumes "0 < dflt" and "alone es"
    and "fan_run es (fanout_start candidates dflt threads) = Some s"
  shows "0 < thread_limit dflt threads
       \<and> length (in_flight s) \<le> thread_limit dflt threads
       \<and> (\<forall>i < length (in_flight s).
            \<exists>s'. fan_step (Release i) s = Some s'
                \<and> length (in_flight s') < thread_limit dflt threads
                \<and> waiting s' = waiting s)
       \<and> (length (in_flight s) < thread_limit dflt threads \<longrightarrow>
            (\<forall>i < length (waiting s).
               \<exists>s'. fan_step (Acquire i) s = Some s'
                   \<and> in_flight s' = in_flight s @ [waiting s ! i]))"
proof -
  let ?L = "thread_limit dflt threads"
  have ok: "slots_ok ?L s"
    using fan_run_slots_ok [OF slots_ok_start assms(3,2)] .
  have pos: "0 < ?L" using assms(1) by (simp add: thread_limit_def)
  have le: "length (in_flight s) \<le> ?L" using ok by (simp add: slots_ok_def)
  show ?thesis
    using pos le release_enabled [OF ok] acquire_enabled [OF ok] by blast
qed

text \<open>
  Claim C9 at two overlapping calls of \<^verbatim>\<open>Execute\<close> on the registered port scan module,
  the first for the ports 21 to 24 with \<^verbatim>\<open>threads = 2\<close>. Alone, the first call has two
  checks in flight and its third goroutine cannot send to the full semaphore. But when
  the second call, also with \<^verbatim>\<open>threads = 2\<close>, assigns \<^verbatim>\<open>p.semaphore\<close> while the two
  checks are in flight, the two goroutines still waiting send to the new, empty channel:
  the first call has four checks in flight, against its limit of two.
\<close>

theorem second_Execute_exceeds_limit:
  "thread_limit 100 2 = 2
   \<and> map_option in_flight
       (fan_run [Launch, Launch, Launch, Launch, Acquire 0, Acquire 0]
          (fanout_start [21, 22, 23, 24 :: int] 100 2)) = Some [21, 22]
   \<and> fan_run [Launch, Launch, Launch, Launch, Acquire 0, Acquire 0, Acquire 0]
       (fanout_start [21, 22, 23, 24 :: int] 100 2) = None
   \<and> map_option in_flight
       (fan_run [Launch, Launch, Launch, Launch, Acquire 0, Acquire 0, Execute_again 2,
                 Acquire 0, Acquire 0]
          (fanout_start [21, 22, 23, 24 :: int] 100 2)) = Some [21, 22, 23, 24]"
  by code_simp

section \<open>What a port scan puts on its output channel\<close>

lemma try_send_simps:
  "queue (try_send c x) = (if length (queue c) < cap c then queue c @ [x] else queue c)"
  "cap (try_send c x) = cap c"
  by (simp_all add: try_send_def)

lemma SetStatus_keeps:
  "stopCh (SetStatus now b st p m) = stopCh b"
  "info_Name (SetStatus now b st p m) = info_Name b"
  "Status (status (SetStatus now b st p m)) = st"
  "Progress (status (SetStatus now b st p m)) = p"
  by (simp_all add: SetStatus_def Let_def)

lemma ps_SetStatus_simps:
  "ps_out (ps_SetStatus now st p m s) = ps_out s"
  "ps_open (ps_SetStatus now st p m s) = ps_open s"
  "ps_closed (ps_SetStatus now st p m s) = ps_closed s"
  "ps_scanned (ps_SetStatus now st p m s) = ps_scanned s"
  "stopCh (ps_mod (ps_SetStatus now st p m s)) = stopCh (ps_mod s)"
  "info_Name (ps_mod (ps_SetStatus now st p m s)) = info_Name (ps_mod s)"
  "status_progress (ps_trace (ps_SetStatus now st p m s)) = status_progress (ps_trace s) @ [(st, p)]"
  by (simp_all add: ps_SetStatus_def Let_def SetStatus_keeps GetStatus_def status_progress_def)

text \<open>The event a goroutine sends for an open port.\<close>

lemma scan_goroutine_simps:
  "ps_out (scan_goroutine env opts sid port s) =
     (if scanPort env port
      then try_send (ps_out s)
             \<lparr>res_Type = ''data'', res_Data = POpenPort (open_portInfo env opts port),
              res_Metadata = [], res_Timestamp = clock env, res_SessionID = sid,
              res_Module = info_Name (ps_mod s)\<rparr>
      else ps_out s)"
  "ps_open (scan_goroutine env opts sid port s) =
     (if scanPort env port then ps_open s @ [open_portInfo env opts port] else ps_open s)"
  "ps_closed (scan_goroutine env opts sid port s) =
     (if scanPort env port then ps_closed s else ps_closed s @ [port])"
  "ps_scanned (scan_goroutine env opts sid port s) = Suc (ps_scanned s)"
  "stopCh (ps_mod (scan_goroutine env opts sid port s)) = stopCh (ps_mod s)"
  "info_Name (ps_mod (scan_goroutine env opts sid port s)) = info_Name (ps_mod s)"
  "status_progress (ps_trace (scan_goroutine env opts sid port s)) =
     status_progress (ps_trace s)
       @ [(''running'', of_nat (Suc (ps_scanned s)) / of_nat (length (opt_ports opts)))]"
  by (simp_all add: scan_goroutine_def Let_def ps_SetStatus_simps SendResult_def)

lemma scan_loop_stopped:
  assumes "queue (stopCh (ps_mod s)) \<noteq> []" and "ports \<noteq> []"
  shows "ps_out (scan_loop env opts sid ports s) = ps_out s"
    and "ps_trace (scan_loop env opts sid ports s) = ps_trace s"
    and "ps_open (scan_loop env opts sid ports s) = ps_open s"
    and "ps_closed (scan_loop env opts sid ports s) = ps_closed s"
    and "info_Name (ps_mod (scan_loop env opts sid ports s)) = info_Name (ps_mod s)"
  using assms
  by (cases ports; cases "queue (stopCh (ps_mod s))"; simp add: IsStopped_def try_recv_def)+

lemma scan_loop_Cons_no_token:
  assumes "queue (stopCh (ps_mod s)) = []"
  shows "scan_loop env opts sid (port # ports) s
           = scan_loop env opts sid ports (scan_goroutine env opts sid port s)"
  using assms by (simp add: IsStopped_no_token)

text \<open>
  With no stop token waiting, every port is scanned: the open ones and the closed ones
  are recorded in order, the status is set once for each port, and the channel is
  extended by \<open>data\<close> events only, one for each open port while there is room.
\<close>

lemma upt_shift: "[Suc k ..< Suc (Suc (k + n))] = Suc k # [Suc (Suc k) ..< Suc (Suc (k + n))]"
  by (simp add: upt_conv_Cons)

lemma scan_loop_all:
  assumes "queue (stopCh (ps_mod s)) = []"
  shows "ps_open (scan_loop env opts sid ports s)
           = ps_open s @ map (open_portInfo env opts) (filter (scanPort env) ports)
       \<and> ps_closed (scan_loop env opts sid ports s)
           = ps_closed s @ filter (\<lambda>p. \<not> scanPort env p) ports
       \<and> status_progress (ps_trace (scan_loop env opts sid ports s))
           = status_progress (ps_trace s)
             @ map (\<lambda>k. (''running'', of_nat k / of_nat (length (opt_ports opts))))
                 [Suc (ps_scanned s) ..< Suc (ps_scanned s + length ports)]
       \<and> info_Name (ps_mod (scan_loop env opts sid ports s)) = info_Name (ps_mod s)
       \<and> cap (ps_out (scan_loop env opts sid ports s)) = cap (ps_out s)"
  using assms
proof (induction ports arbitrary: s)
  case Nil
  show ?case by simp
next
  case (Cons port ports)
  let ?s1 = "scan_goroutine env opts sid port s"
  have e: "queue (stopCh (ps_mod ?s1)) = []"
    using Cons.prems by (simp add: scan_goroutine_simps)
  note IH = Cons.IH [OF e]
  show ?case
    unfolding scan_loop_Cons_no_token [OF Cons.prems]
    using IH by (simp add: scan_goroutine_simps upt_shift try_send_simps del: upt_Suc)
qed

lemma try_send_take:
  assumes "length (queue c) \<le> cap c"
  shows "queue (try_send c x) = take (cap c) (queue c @ [x])"
  using assms by (simp add: try_send_def)

lemma take_take_append:
  "take n (take n xs @ ys) = take n (xs @ ys)"
  by (cases "length xs \<le> n") (simp_all add: min_def)

lemma scan_loop_out:
  assumes "queue (stopCh (ps_mod s)) = []"
  shows "queue (ps_out (scan_loop env opts sid ports (s\<lparr>ps_out := c\<lparr>queue := take (cap c) q\<rparr>\<rparr>)))
           = take (cap c)
               (q @ map (\<lambda>port. event env (ps_mod s) sid ''data''
                                    (POpenPort (open_portInfo env opts port)) [])
                      (filter (scanPort env) ports))"
  using assms
proof (induction ports arbitrary: s q)
  case Nil
  show ?case by simp
next
  case (Cons port ports)
  let ?s = "s\<lparr>ps_out := c\<lparr>queue := take (cap c) q\<rparr>\<rparr>"
  let ?ev = "event env (ps_mod s) sid ''data'' (POpenPort (open_portInfo env opts port)) []"
  have nt: "queue (stopCh (ps_mod ?s)) = []" using Cons.prems by simp
  have step: "scan_loop env opts sid (port # ports) ?s
                = scan_loop env opts sid ports (scan_goroutine env opts sid port ?s)"
    using scan_loop_Cons_no_token [OF nt] .
  show ?case
  proof (cases "scanPort env port")
    case True
    let ?s1 = "scan_goroutine env opts sid port s"
    have g: "scan_goroutine env opts sid port ?s
               = (scan_goroutine env opts sid port s)\<lparr>ps_out := c\<lparr>queue := take (cap c) (q @ [?ev])\<rparr>\<rparr>"
      using True
      by (simp add: scan_goroutine_def Let_def ps_SetStatus_def SendResult_def event_def
            try_send_def take_take_append min_def)
    have e: "queue (stopCh (ps_mod ?s1)) = []" using Cons.prems by (simp add: scan_goroutine_simps)
    have n: "info_Name (ps_mod ?s1) = info_Name (ps_mod s)" by (simp add: scan_goroutine_simps)
    show ?thesis
      unfolding step g using Cons.IH [OF e, of "q @ [?ev]"] True n by (simp add: event_def)
  next
    case False
    let ?s1 = "scan_goroutine env opts sid port s"
    have g: "scan_goroutine env opts sid port ?s
               = (scan_goroutine env opts sid port s)\<lparr>ps_out := c\<lparr>queue := take (cap c) q\<rparr>\<rparr>"
      using False by (simp add: scan_goroutine_def Let_def ps_SetStatus_def)
    have e: "queue (stopCh (ps_mod ?s1)) = []" using Cons.prems by (simp add: scan_goroutine_simps)
    have n: "info_Name (ps_mod ?s1) = info_Name (ps_mod s)" by (simp add: scan_goroutine_simps)
    show ?thesis
      unfolding step g using Cons.IH [OF e, of q] False n by (simp add: event_def)
  qed
qed

lemma status_progress_Nil: "status_progress [] = []"
  by (simp add: status_progress_def)

lemma PortScan_Execute_no_ports:
  assumes "opt_ports opts = []"
  shows "fst (PortScan_Execute env opts b target sid output)
           = Some (NewModuleError ''no valid ports to scan'' ''NO_PORTS'')"
  using assms by (simp add: PortScan_Execute_def Let_def)

text \<open>
  A run on a non-empty port list returns no error. Its output channel holds what it held
  before, followed by the \<open>progress\<close> event, the \<open>data\<close> events of the open ports and the
  \<open>complete\<close> event, cut off at the capacity of the channel; and the statuses it sets are
  \<open>running\<close> with progress 0, then \<open>running\<close> with \<open>k / n\<close> for each port scanned, then
  \<open>completed\<close> with progress 1.
\<close>

lemma PortScan_Execute_run:
  assumes ports: "opt_ports opts \<noteq> []" and room: "length (queue output) \<le> cap output"
  shows "fst (PortScan_Execute env opts b target sid output) = None
       \<and> queue (ps_out (snd (PortScan_Execute env opts b target sid output)))
           = take (cap output)
               (queue output @ progress_event env opts b target sid
                  # data_events env opts b sid @ [complete_event env opts b target sid])
       \<and> status_progress (ps_trace (snd (PortScan_Execute env opts b target sid output)))
           = (''running'', 0)
             # map (\<lambda>k. (''running'', of_nat k / of_nat (length (opt_ports opts))))
                 [Suc 0 ..< Suc (length (launched b opts))]
             @ [(''completed'', 1)]"
proof -
  define s0 where "s0 = ps_SetStatus (clock env) ''running'' 0 ''Starting port scan''
                 \<lparr>ps_mod = b, ps_out = output, ps_open = [], ps_closed = [], ps_scanned = 0,
                  ps_trace = []\<rparr>"
  define q1 where "q1 = queue output @ [progress_event env opts b target sid]"
  define s1 where "s1 = s0\<lparr>ps_out := output\<lparr>queue := take (cap output) q1\<rparr>\<rparr>"
  define s2 where "s2 = scan_loop env opts sid (opt_ports opts) s1"
  define result where "result = \<lparr>ps_Target = target, OpenPorts = sort_key Port (ps_open s2),
                         ClosedPorts = sort (ps_closed s2), TotalPorts = length (opt_ports opts),
                         ScanTime = elapsed env,
                         ScanType = (if opt_scanType opts = '''' then ''tcp_connect''
                                     else opt_scanType opts)\<rparr>"
  define s3 where "s3 = ps_SetStatus (clock env) ''completed'' 1
                      (sprintf env ''Scan completed: %d open ports found''
                         [int (length (OpenPorts result))]) s2"
  define s4 where "s4 = s3\<lparr>ps_out := SendResult (clock env) (ps_mod s3) (ps_out s3) ''complete''
                                    (PResult result)
                                    [(''open_ports'', MInt (int (length (OpenPorts result)))),
                                     (''scan_time'', MStr (ScanTime result))] sid\<rparr>"
  have s0: "ps_out s0 = output" "ps_open s0 = []" "ps_closed s0 = []" "ps_scanned s0 = 0"
      "stopCh (ps_mod s0) = stopCh b" "info_Name (ps_mod s0) = info_Name b"
      "status_progress (ps_trace s0) = [(''running'', 0)]"
    by (simp_all add: s0_def ps_SetStatus_simps status_progress_Nil)
  have send1: "SendResult (clock env) (ps_mod s0) (ps_out s0) ''progress''
                 (PText (sprintf env ''Scanning %d ports on %s'' [int (length (opt_ports opts))] @ target))
                 [] sid = output\<lparr>queue := take (cap output) q1\<rparr>"
    using room by (simp add: SendResult_def s0 try_send_def q1_def progress_event_def event_def)
  have E: "PortScan_Execute env opts b target sid output = (None, s4)"
    using ports
    by (simp add: PortScan_Execute_def Let_def s4_def s3_def result_def s2_def s1_def send1
          flip: s0_def)
  have s1: "ps_open s1 = []" "ps_closed s1 = []" "ps_scanned s1 = 0"
      "stopCh (ps_mod s1) = stopCh b" "info_Name (ps_mod s1) = info_Name b"
      "status_progress (ps_trace s1) = [(''running'', 0)]"
      "ps_mod s1 = ps_mod s0"
    by (simp_all add: s1_def s0)
  have s2: "ps_open s2 = map (open_portInfo env opts) (filter (scanPort env) (launched b opts))
          \<and> ps_closed s2 = filter (\<lambda>p. \<not> scanPort env p) (launched b opts)
          \<and> status_progress (ps_trace s2)
              = (''running'', 0)
                # map (\<lambda>k. (''running'', of_nat k / of_nat (length (opt_ports opts))))
                    [Suc 0 ..< Suc (length (launched b opts))]
          \<and> info_Name (ps_mod s2) = info_Name b
          \<and> queue (ps_out s2) = take (cap output) (q1 @ data_events env opts b sid)
          \<and> cap (ps_out s2) = cap output"
  proof (cases "queue (stopCh b) = []")
    case True
    have nt: "queue (stopCh (ps_mod s1)) = []" using True s1 by simp
    have nt0: "queue (stopCh (ps_mod s0)) = []" using True s0 by simp
    have out: "queue (ps_out s2) = take (cap output) (q1 @ data_events env opts b sid)"
      unfolding s2_def s1_def
      using scan_loop_out [OF nt0, where env = env and opts = opts and sid = sid
          and ports = "opt_ports opts" and c = "output" and q = q1] True s0
      by (simp add: data_events_def launched_def event_def)
    have c: "cap (ps_out s2) = cap output"
      using scan_loop_all [OF nt, of env opts sid "opt_ports opts"]
      by (simp add: s2_def s1_def)
    show ?thesis
      using scan_loop_all [OF nt, of env opts sid "opt_ports opts"] True s1 out c
      by (simp add: s2_def launched_def)
  next
    case False
    have t: "queue (stopCh (ps_mod s1)) \<noteq> []" using False s1 by simp
    note st = scan_loop_stopped [OF t ports, of env opts sid]
    show ?thesis
      using st False s1 by (simp add: s2_def launched_def data_events_def s1_def)
  qed
  have res: "result = scan_result env opts b target"
    using s2 by (simp add: result_def scan_result_def)
  have s3: "ps_out s3 = ps_out s2" "info_Name (ps_mod s3) = info_Name b"
      "status_progress (ps_trace s3) = status_progress (ps_trace s2) @ [(''completed'', 1)]"
    using s2 by (simp_all add: s3_def ps_SetStatus_simps)
  have len2: "length (queue (ps_out s2)) \<le> cap (ps_out s2)" using s2 by simp
  have q4: "queue (ps_out s4)
              = take (cap output) (q1 @ data_events env opts b sid @ [complete_event env opts b target sid])"
  proof -
    have "queue (ps_out s4)
            = take (cap (ps_out s2)) (queue (ps_out s2) @ [complete_event env opts b target sid])"
      using try_send_take [OF len2]
      by (simp add: s4_def SendResult_def s3 res complete_event_def event_def scan_result_def)
    also have "\<dots> = take (cap output)
                      (take (cap output) (q1 @ data_events env opts b sid)
                         @ [complete_event env opts b target sid])"
      using s2 by (simp del: take_append)
    also have "\<dots> = take (cap output)
                      (q1 @ data_events env opts b sid @ [complete_event env opts b target sid])"
      by (simp only: take_take_append append_assoc)
    finally show ?thesis .
  qed
  have t4: "status_progress (ps_trace s4) = status_progress (ps_trace s2) @ [(''completed'', 1)]"
    by (simp add: s4_def s3)
  have tr: "status_progress (ps_trace s4)
              = (''running'', 0)
                # map (\<lambda>k. (''running'', of_nat k / of_nat (length (opt_ports opts))))
                    [Suc 0 ..< Suc (length (launched b opts))]
                @ [(''completed'', 1)]"
    using t4 s2 by (simp del: upt_Suc)
  have q: "queue (ps_out s4)
             = take (cap output)
                 (queue output @ progress_event env opts b target sid
                    # data_events env opts b sid @ [complete_event env opts b target sid])"
    using q4 by (simp add: q1_def del: take_append)
  show ?thesis unfolding E using q tr by (simp del: take_append upt_Suc)
qed

section \<open>Delivery of the terminal event\<close>

lemma PortScan_fresh_channel:
  assumes "opt_ports opts \<noteq> []"
  shows "fst (PortScan_Execute env opts b target sid (make_chan n)) = None"
    and "queue (ps_out (snd (PortScan_Execute env opts b target sid (make_chan n))))
           = take n (progress_event env opts b target sid
                       # data_events env opts b sid @ [complete_event env opts b target sid])"
proof -
  have room: "length (queue (make_chan n :: port_payload ModuleResult chan))
                \<le> cap (make_chan n :: port_payload ModuleResult chan)"
    by (simp add: make_chan_def)
  have c: "cap (make_chan n :: port_payload ModuleResult chan) = n"
    and q: "queue (make_chan n :: port_payload ModuleResult chan) = []"
    by (simp_all add: make_chan_def)
  note run = PortScan_Execute_run [OF assms room, of env b target sid]
  show "fst (PortScan_Execute env opts b target sid (make_chan n)) = None"
    using run by blast
  show "queue (ps_out (snd (PortScan_Execute env opts b target sid (make_chan n))))
           = take n (progress_event env opts b target sid
                       # data_events env opts b sid @ [complete_event env opts b target sid])"
    using run unfolding c q by (simp del: take_append take_Cons_numeral)
qed

lemma launched_length: "length (launched b opts) \<le> length (opt_ports opts)"
  by (simp add: launched_def)

lemma adapter_ports: "opt_ports adapter_opts \<noteq> []" "length (opt_ports adapter_opts) = 23"
  by (simp_all add: adapter_opts_def common_ports_def)

lemma data_events_length:
  "length (data_events env opts b sid) = length (filter (scanPort env) (launched b opts))"
  "length (data_events env opts b sid) \<le> length (opt_ports opts)"
proof -
  show 1: "length (data_events env opts b sid) = length (filter (scanPort env) (launched b opts))"
    by (simp add: data_events_def)
  have "length (filter (scanPort env) (launched b opts)) \<le> length (launched b opts)"
    by (rule length_filter_le)
  then show "length (data_events env opts b sid) \<le> length (opt_ports opts)"
    using 1 launched_length [of b opts] by linarith
qed

lemma Adapter_results:
  "fst (Adapter_Execute env b target)
     = Inr (progress_event env adapter_opts b target ''default''
              # data_events env adapter_opts b ''default''
              @ [complete_event env adapter_opts b target ''default''])"
proof -
  let ?all = "progress_event env adapter_opts b target ''default''
              # data_events env adapter_opts b ''default''
              @ [complete_event env adapter_opts b target ''default'']"
  obtain r s where p: "PortScan_Execute env adapter_opts b target ''default'' (make_chan 100) = (r, s)"
    by (cases "PortScan_Execute env adapter_opts b target ''default'' (make_chan 100)")
  note f = PortScan_fresh_channel [OF adapter_ports(1), of env b target "''default''" 100]
  have r: "r = None" using f(1) p by simp
  have "length ?all \<le> 100"
    using data_events_length(2) [of env adapter_opts b "''default''"] adapter_ports(2) by simp
  then have "take 100 ?all = ?all" by (simp only: take_all)
  then have "queue (ps_out s) = ?all" using f(2) p by simp
  then show ?thesis using r by (simp add: Adapter_Execute_def p Let_def)
qed

lemma event_types:
  "res_Type (progress_event env opts b target sid) = ''progress''"
  "res_Type (complete_event env opts b target sid) = ''complete''"
  "\<forall>d \<in> set (data_events env opts b sid). res_Type d = ''data''"
  by (auto simp: progress_event_def complete_event_def data_events_def event_def)

lemma complete_in_take:
  assumes "res_Type p \<noteq> ''complete''" and "\<forall>d \<in> set ds. res_Type d \<noteq> ''complete''"
    and "res_Type c = ''complete''"
  shows "events_of_type ''complete'' (take n (p # ds @ [c]))
           = (if Suc (length ds) < n then [c] else [])"
proof (cases "Suc (length ds) < n")
  case True
  then have "take n (p # ds @ [c]) = p # ds @ [c]" by simp
  then show ?thesis using assms True by (simp add: events_of_type_def)
next
  case False
  then have "n \<le> length (p # ds)" by simp
  then have t: "take n ((p # ds) @ [c]) = take n (p # ds)" by (simp only: take_append) simp
  have "\<forall>x \<in> set (take n (p # ds)). res_Type x \<noteq> ''complete''"
  proof
    fix x
    assume "x \<in> set (take n (p # ds))"
    then have "x \<in> set (p # ds)" by (rule in_set_takeD)
    then show "res_Type x \<noteq> ''complete''" using assms(1,2) by auto
  qed
  then have "filter (\<lambda>r. res_Type r = ''complete'') (take n (p # ds)) = []"
    by (simp only: filter_empty_conv)
  then show ?thesis using False t by (simp add: events_of_type_def del: take_append)
qed

text \<open>
  Claim C1, as stated, fails: \<^verbatim>\<open>SendResult\<close> sends the terminal event with the same
  non-blocking send as every other event, and drops it when the channel is full. A port
  scan of ports 1 to 100, all of them open, on an output channel of 100 slots that is
  read after \<^verbatim>\<open>Execute\<close> has returned (as \<^verbatim>\<open>ModuleAdapter.Execute\<close> reads its
  channel) returns no error; the 100 slots are taken by the \<open>progress\<close> event and 99
  \<open>data\<close> events, and the channel holds no \<open>complete\<close> event.
\<close>

theorem complete_event_dropped_when_channel_full:
  "fst (PortScan_Execute env_all_open (opts_ports ports_1_to_100)
          (NewBaseModule ''port_scan'') ''10.0.0.5'' ''s1'' (make_chan 100)) = None
   \<and> length (queue (ps_out (snd (PortScan_Execute env_all_open (opts_ports ports_1_to_100)
          (NewBaseModule ''port_scan'') ''10.0.0.5'' ''s1'' (make_chan 100))))) = 100
   \<and> events_of_type ''complete''
        (queue (ps_out (snd (PortScan_Execute env_all_open (opts_ports ports_1_to_100)
          (NewBaseModule ''port_scan'') ''10.0.0.5'' ''s1'' (make_chan 100))))) = []"
proof -
  let ?opts = "opts_ports ports_1_to_100"
  let ?b = "NewBaseModule ''port_scan''"
  let ?p = "progress_event env_all_open ?opts ?b ''10.0.0.5'' ''s1''"
  let ?ds = "data_events env_all_open ?opts ?b ''s1''"
  let ?c = "complete_event env_all_open ?opts ?b ''10.0.0.5'' ''s1''"
  have n: "length ports_1_to_100 = 100" by (simp add: ports_1_to_100_def)
  have ne: "opt_ports ?opts \<noteq> []" using n by (auto simp: opts_ports_def)
  have len: "length ?ds = 100"
    using n
    by (simp add: data_events_def launched_def NewBaseModule_def make_chan_def opts_ports_def
          env_all_open_def)
  note f = PortScan_fresh_channel [OF ne, of env_all_open ?b "''10.0.0.5''" "''s1''" 100]
  have l: "length (take 100 (?p # ?ds @ [?c])) = 100" using len by simp
  have "events_of_type ''complete'' (take 100 (?p # ?ds @ [?c])) = []"
    using complete_in_take [of ?p ?ds ?c 100] event_types [of env_all_open ?opts ?b] len
    by simp
  then show ?thesis using f l by (simp only:)
qed

text \<open>
  Claim C1, amended. \<^verbatim>\<open>SendResult\<close> puts a \<open>complete\<close> event on the output channel
  exactly when the channel has a free slot, and leaves the channel as it is otherwise.
  A port scan of a non-empty port list on a fresh output channel of capacity \<open>n\<close>, read
  only after \<^verbatim>\<open>Execute\<close> has returned, returns no error and leaves on the channel at
  most one \<open>complete\<close> event: exactly one, as the last event and carrying the full
  result, when the \<open>progress\<close> event and the \<open>data\<close> events of the open ports leave a
  slot free, and none otherwise. Through \<^verbatim>\<open>ModuleAdapter.Execute\<close>, which scans the
  23 common ports on a channel of 100 slots, the consumer always gets the \<open>progress\<close>
  event, the \<open>data\<close> events and then the one \<open>complete\<close> event.
\<close>

theorem complete_event_delivered_iff_room:
  assumes "opt_ports opts \<noteq> []"
  shows "queue (SendResult now b c ''complete'' d m sid)
           = (if length (queue c) < cap c
              then queue c @ [\<lparr>res_Type = ''complete'', res_Data = d, res_Metadata = m,
                                 res_Timestamp = now, res_SessionID = sid,
                                 res_Module = info_Name b\<rparr>]
              else queue c)
       \<and> fst (PortScan_Execute env opts b target sid (make_chan n)) = None
       \<and> events_of_type ''complete''
            (queue (ps_out (snd (PortScan_Execute env opts b target sid (make_chan n)))))
           = (if Suc (length (filter (scanPort env) (launched b opts))) < n
              then [complete_event env opts b target sid] else [])
       \<and> (Suc (length (filter (scanPort env) (launched b opts))) < n \<longrightarrow>
            last (queue (ps_out (snd (PortScan_Execute env opts b target sid (make_chan n)))))
              = complete_event env opts b target sid)
       \<and> res_Data (complete_event env opts b target sid) = PResult (scan_result env opts b target)
       \<and> fst (Adapter_Execute env b target)
           = Inr (progress_event env adapter_opts b target ''default''
                    # data_events env adapter_opts b ''default''
                    @ [complete_event env adapter_opts b target ''default''])"
proof -
  let ?p = "progress_event env opts b target sid"
  let ?ds = "data_events env opts b sid"
  let ?c = "complete_event env opts b target sid"
  let ?q = "queue (ps_out (snd (PortScan_Execute env opts b target sid (make_chan n))))"
  note f = PortScan_fresh_channel [OF assms, of env b target sid n]
  have q: "?q = take n (?p # ?ds @ [?c])" using f(2) .
  have len: "length ?ds = length (filter (scanPort env) (launched b opts))"
    by (rule data_events_length(1))
  have 0: "queue (SendResult now b c ''complete'' d m sid)
           = (if length (queue c) < cap c
              then queue c @ [\<lparr>res_Type = ''complete'', res_Data = d, res_Metadata = m,
                                 res_Timestamp = now, res_SessionID = sid,
                                 res_Module = info_Name b\<rparr>]
              else queue c)"
    by (simp add: SendResult_def try_send_def)
  have 1: "events_of_type ''complete'' ?q
             = (if Suc (length (filter (scanPort env) (launched b opts))) < n then [?c] else [])"
    unfolding q using complete_in_take [of ?p ?ds ?c n] event_types [of env opts b] len
    by simp
  have 2: "last ?q = ?c" if "Suc (length (filter (scanPort env) (launched b opts))) < n"
  proof -
    have "take n (?p # ?ds @ [?c]) = ?p # ?ds @ [?c]" using that len by simp
    then show ?thesis unfolding q by simp
  qed
  have 3: "res_Data ?c = PResult (scan_result env opts b target)"
    by (simp add: complete_event_def event_def)
  show ?thesis using 0 f(1) 1 2 3 Adapter_results [of env b target] by blast
qed

theorem complete_event_delivered_iff_room_witness:
  "opt_ports (opts_ports [20, 21, 22, 23, 24, 25]) \<noteq> []
   \<and> events_of_type ''complete''
        (queue (ps_out (snd (PortScan_Execute env_ssh_only (opts_ports [20, 21, 22, 23, 24, 25])
           (NewBaseModule ''port_scan'') ''10.0.0.5'' ''s1'' (make_chan 100)))))
     = [complete_event env_ssh_only (opts_ports [20, 21, 22, 23, 24, 25])
          (NewBaseModule ''port_scan'') ''10.0.0.5'' ''s1'']
   \<and> map Port (OpenPorts (scan_result env_ssh_only (opts_ports [20, 21, 22, 23, 24, 25])
          (NewBaseModule ''port_scan'') ''10.0.0.5'')) = [22]"
proof -
  let ?opts = "opts_ports [20, 21, 22, 23, 24, 25]"
  let ?b = "NewBaseModule ''port_scan''"
  have ne: "opt_ports ?opts \<noteq> []" by (simp add: opts_ports_def)
  have l: "launched ?b ?opts = [20, 21, 22, 23, 24, 25]"
    by (simp add: launched_def NewBaseModule_def make_chan_def opts_ports_def)
  have f: "filter (scanPort env_ssh_only) (launched ?b ?opts) = [22]"
    by (simp add: l env_ssh_only_def)
  have o: "map Port (OpenPorts (scan_result env_ssh_only ?opts ?b ''10.0.0.5'')) = [22]"
    by (simp add: scan_result_def f open_portInfo_def)
  show ?thesis
    using complete_event_delivered_iff_room
            [OF ne, of 0 ?b "make_chan 1" "PText ''''" "[]" "''s1''" env_ssh_only "''10.0.0.5''" 100]
          ne f o
    by simp
qed

section \<open>The status of a module\<close>

text \<open>
  Claim C6, as stated, fails in both parts. After \<^verbatim>\<open>Stop\<close> the status is \<open>stopped\<close>,
  not \<open>idle\<close>; and a port scan of the single port 22 sets the status to \<open>running\<close> with
  progress 1 when its goroutine ends, before the final update to \<open>completed\<close>.
\<close>

theorem stopped_not_idle_and_running_at_full_progress:
  "Status (GetStatus (Stop (NewBaseModule ''port_scan''))) = ''stopped''
   \<and> status_progress (ps_trace (snd (PortScan_Execute env_ssh_only (opts_ports [22])
         (NewBaseModule ''port_scan'') ''10.0.0.5'' ''s1'' (make_chan 100))))
     = [(''running'', 0), (''running'', 1), (''completed'', 1)]"
  by code_simp


lemma running_progress_bound:
  assumes "k \<in> set [Suc 0 ..< Suc m]" and "m \<le> n"
  shows "0 < (of_nat k / of_nat n :: rat)" and "(of_nat k / of_nat n :: rat) \<le> 1"
    and "(of_nat k / of_nat n :: rat) = 1 \<longleftrightarrow> k = n"
  using assms by (auto simp del: upt_Suc)

text \<open>
  Claim C6, amended. A new module has status \<open>idle\<close>. After \<^verbatim>\<open>Stop\<close> the status is
  \<open>stopped\<close>, the module is not running, and its progress is what it was. A port scan
  of \<open>n > 0\<close> ports sets the status to \<open>running\<close> with progress 0, then, as the \<open>k\<close>-th
  goroutine ends, to \<open>running\<close> with progress \<open>k / n\<close>, and at the end to \<open>completed\<close>
  with progress 1: while the status is \<open>running\<close> the progress is at most 1, and it is 1
  exactly from the update of the last port on.
\<close>

theorem module_status_idle_stopped_running:
  assumes "opt_ports opts \<noteq> []" and "length (queue out) \<le> cap out"
  shows "Status (GetStatus (NewBaseModule name)) = ''idle''
       \<and> Status (GetStatus (Stop b)) = ''stopped''
       \<and> \<not> IsRunning (GetStatus (Stop b))
       \<and> Progress (GetStatus (Stop b)) = Progress (GetStatus b)
       \<and> status_progress (ps_trace (snd (PortScan_Execute env opts b target sid out)))
           = (''running'', 0)
             # map (\<lambda>k. (''running'', of_nat k / of_nat (length (opt_ports opts))))
                 [Suc 0 ..< Suc (length (launched b opts))]
             @ [(''completed'', 1)]
       \<and> (\<forall>k \<in> set [Suc 0 ..< Suc (length (launched b opts))].
             (of_nat k / of_nat (length (opt_ports opts)) :: rat) \<le> 1
           \<and> ((of_nat k / of_nat (length (opt_ports opts)) :: rat) = 1
                \<longleftrightarrow> k = length (opt_ports opts)))"
proof -
  have a: "Status (GetStatus (NewBaseModule name)) = ''idle''"
    by (simp add: GetStatus_def NewBaseModule_def)
  have b: "Status (GetStatus (Stop b)) = ''stopped'' \<and> \<not> IsRunning (GetStatus (Stop b))
           \<and> Progress (GetStatus (Stop b)) = Progress (GetStatus b)"
    by (simp add: GetStatus_def Stop_def Let_def)
  have c: "status_progress (ps_trace (snd (PortScan_Execute env opts b target sid out)))
           = (''running'', 0)
             # map (\<lambda>k. (''running'', of_nat k / of_nat (length (opt_ports opts))))
                 [Suc 0 ..< Suc (length (launched b opts))]
             @ [(''completed'', 1)]"
    using PortScan_Execute_run [OF assms] by blast
  have d: "(of_nat k / of_nat (length (opt_ports opts)) :: rat) \<le> 1
           \<and> ((of_nat k / of_nat (length (opt_ports opts)) :: rat) = 1
                \<longleftrightarrow> k = length (opt_ports opts))"
    if "k \<in> set [Suc 0 ..< Suc (length (launched b opts))]" for k
    using running_progress_bound(2,3) [OF that launched_length] by blast
  show ?thesis using a b c d by blast
qed

theorem module_status_idle_stopped_running_witness:
  "opt_ports (opts_ports [20, 21, 22, 23]) \<noteq> []
   \<and> status_progress (ps_trace (snd (PortScan_Execute env_ssh_only (opts_ports [20, 21, 22, 23])
         (NewBaseModule ''port_scan'') ''10.0.0.5'' ''s1'' (make_chan 100))))
     = [(''running'', 0), (''running'', 1 / 4), (''running'', 1 / 2), (''running'', 3 / 4),
        (''running'', 1), (''completed'', 1)]"
proof -
  let ?opts = "opts_ports [20, 21, 22, 23]"
  have ne: "opt_ports ?opts \<noteq> []" by (simp add: opts_ports_def)
  have room: "length (queue (make_chan 100 :: port_payload ModuleResult chan))
                \<le> cap (make_chan 100 :: port_payload ModuleResult chan)"
    by (simp add: make_chan_def)
  have l: "launched (NewBaseModule ''port_scan'') ?opts = [20, 21, 22, 23]"
    by (simp add: launched_def NewBaseModule_def make_chan_def opts_ports_def)
  have n: "length (opt_ports ?opts) = 4" by (simp add: opts_ports_def)
  have "status_progress (ps_trace (snd (PortScan_Execute env_ssh_only ?opts
          (NewBaseModule ''port_scan'') ''10.0.0.5'' ''s1'' (make_chan 100))))
        = (''running'', 0)
          # map (\<lambda>k. (''running'', of_nat k / of_nat (length (opt_ports ?opts))))
              [Suc 0 ..< Suc (length (launched (NewBaseModule ''port_scan'') ?opts))]
          @ [(''completed'', 1)]"
    using module_status_idle_stopped_running [OF ne room] by blast
  then show ?thesis using ne by (simp add: l n eval_nat_numeral)
qed

section \<open>Progress until the module returns\<close>

text \<open>
  The \<^verbatim>\<open>float64\<close> values of the constants 0.1 and 0.9, and the sums the ticks compute:
  0.1, 0.2, 0.30000000000000004, 0.4, 0.5, 0.6, 0.7, 0.7999999999999999,
  0.8999999999999999 and 0.9999999999999999. The last but one is still below the
  \<^verbatim>\<open>float64\<close> 0.9, so a ninth tick passes the test and the progress of a running scan
  comes to 0.9999999999999999, the largest \<^verbatim>\<open>float64\<close> below 1.
\<close>

lemma float64_tenth: "float64 (1 / 10) = 3602879701896397 / 36028797018963968"
  by code_simp

lemma float64_nine_tenths: "float64 (9 / 10) = 8106479329266893 / 9007199254740992"
  by code_simp

lemma tick_step_0: "float64 (3602879701896397 / 36028797018963968 + 3602879701896397 / 36028797018963968) = 3602879701896397 / 18014398509481984"
  by code_simp

lemma tick_step_1: "float64 (3602879701896397 / 18014398509481984 + 3602879701896397 / 36028797018963968) = 1351079888211149 / 4503599627370496"
  by code_simp

lemma tick_step_2: "float64 (1351079888211149 / 4503599627370496 + 3602879701896397 / 36028797018963968) = 3602879701896397 / 9007199254740992"
  by code_simp

lemma tick_step_3: "float64 (3602879701896397 / 9007199254740992 + 3602879701896397 / 36028797018963968) = 1 / 2"
  by code_simp

lemma tick_step_4: "float64 (1 / 2 + 3602879701896397 / 36028797018963968) = 5404319552844595 / 9007199254740992"
  by code_simp

lemma tick_step_5: "float64 (5404319552844595 / 9007199254740992 + 3602879701896397 / 36028797018963968) = 3152519739159347 / 4503599627370496"
  by code_simp

lemma tick_step_6: "float64 (3152519739159347 / 4503599627370496 + 3602879701896397 / 36028797018963968) = 7205759403792793 / 9007199254740992"
  by code_simp

lemma tick_step_7: "float64 (7205759403792793 / 9007199254740992 + 3602879701896397 / 36028797018963968) = 2026619832316723 / 2251799813685248"
  by code_simp

lemma tick_step_8: "float64 (2026619832316723 / 2251799813685248 + 3602879701896397 / 36028797018963968) = 9007199254740991 / 9007199254740992"
  by code_simp

lemmas tick_steps = tick_step_0 tick_step_1 tick_step_2 tick_step_3 tick_step_4 tick_step_5
  tick_step_6 tick_step_7 tick_step_8

lemma tick_value_table:
  "tick_value 0 = 3602879701896397 / 36028797018963968"
  "tick_value (Suc 0) = 3602879701896397 / 18014398509481984"
  "tick_value (Suc (Suc 0)) = 1351079888211149 / 4503599627370496"
  "tick_value (Suc (Suc (Suc 0))) = 3602879701896397 / 9007199254740992"
  "tick_value (Suc (Suc (Suc (Suc 0)))) = 1 / 2"
  "tick_value (Suc (Suc (Suc (Suc (Suc 0))))) = 5404319552844595 / 9007199254740992"
  "tick_value (Suc (Suc (Suc (Suc (Suc (Suc 0)))))) = 3152519739159347 / 4503599627370496"
  "tick_value (Suc (Suc (Suc (Suc (Suc (Suc (Suc 0))))))) = 7205759403792793 / 9007199254740992"
  "tick_value (Suc (Suc (Suc (Suc (Suc (Suc (Suc (Suc 0)))))))) = 2026619832316723 / 2251799813685248"
  "tick_value (Suc (Suc (Suc (Suc (Suc (Suc (Suc (Suc (Suc 0))))))))) = 9007199254740991 / 9007199254740992"
  by (simp_all only: tick_value.simps float64_tenth tick_steps)

lemma upt_10: "[0 ..< 10] = [0, Suc 0, Suc (Suc 0), Suc (Suc (Suc 0)), Suc (Suc (Suc (Suc 0))), Suc (Suc (Suc (Suc (Suc 0)))), Suc (Suc (Suc (Suc (Suc (Suc 0))))), Suc (Suc (Suc (Suc (Suc (Suc (Suc 0)))))), Suc (Suc (Suc (Suc (Suc (Suc (Suc (Suc 0))))))), Suc (Suc (Suc (Suc (Suc (Suc (Suc (Suc (Suc 0))))))))]"
  by (simp add: upt_rec eval_nat_numeral)

lemma tick_values_eq:
  "tick_values =
     [3602879701896397 / 36028797018963968,
      3602879701896397 / 18014398509481984,
      1351079888211149 / 4503599627370496,
      3602879701896397 / 9007199254740992,
      1 / 2,
      5404319552844595 / 9007199254740992,
      3152519739159347 / 4503599627370496,
      7205759403792793 / 9007199254740992,
      2026619832316723 / 2251799813685248,
      9007199254740991 / 9007199254740992]"
  by (simp only: tick_values_def upt_10 list.map tick_value_table)

lemma tick_values_bounds: "\<forall>v \<in> set tick_values. 0 \<le> v \<and> v < 1"
  by (simp add: tick_values_eq)

lemma tick_values_next:
  assumes "v \<in> set tick_values" and "v < float64 (9 / 10)"
  shows "float64 (v + float64 (1 / 10)) \<in> set tick_values \<and> v \<le> float64 (v + float64 (1 / 10))"
proof -
  have "v \<in> set (butlast tick_values)"
    using assms by (auto simp: tick_values_eq float64_nine_tenths)
  then consider "v = 3602879701896397 / 36028797018963968" | "v = 3602879701896397 / 18014398509481984" | "v = 1351079888211149 / 4503599627370496" | "v = 3602879701896397 / 9007199254740992" | "v = 1 / 2" | "v = 5404319552844595 / 9007199254740992" | "v = 3152519739159347 / 4503599627370496" | "v = 7205759403792793 / 9007199254740992" | "v = 2026619832316723 / 2251799813685248"
    by (auto simp: tick_values_eq)
  then show ?thesis
  proof cases
    case 1
    show ?thesis unfolding 1 float64_tenth tick_step_0 by (simp add: tick_values_eq)
  next
    case 2
    show ?thesis unfolding 2 float64_tenth tick_step_1 by (simp add: tick_values_eq)
  next
    case 3
    show ?thesis unfolding 3 float64_tenth tick_step_2 by (simp add: tick_values_eq)
  next
    case 4
    show ?thesis unfolding 4 float64_tenth tick_step_3 by (simp add: tick_values_eq)
  next
    case 5
    show ?thesis unfolding 5 float64_tenth tick_step_4 by (simp add: tick_values_eq)
  next
    case 6
    show ?thesis unfolding 6 float64_tenth tick_step_5 by (simp add: tick_values_eq)
  next
    case 7
    show ?thesis unfolding 7 float64_tenth tick_step_6 by (simp add: tick_values_eq)
  next
    case 8
    show ?thesis unfolding 8 float64_tenth tick_step_7 by (simp add: tick_values_eq)
  next
    case 9
    show ?thesis unfolding 9 float64_tenth tick_step_8 by (simp add: tick_values_eq)
  qed
qed

text \<open>
  Before the module returns, every step of the progress goroutine and every
  \<^verbatim>\<open>CancelScan\<close> leaves the scan's progress among these values and does not lower it.
\<close>


lemma tick_step_progress:
  assumes "ticking scan"
  shows "ticking (fst (tick_test scan)) \<and> scan_Progress scan \<le> scan_Progress (fst (tick_test scan))"
    and "ticking (fst (tick_load scan)) \<and> scan_Progress scan \<le> scan_Progress (fst (tick_load scan))"
    and "ticking (fst (tick_store scan)) \<and> scan_Progress scan \<le> scan_Progress (fst (tick_store scan))"
    and "ticking (fst (tick_broadcast scan))
         \<and> scan_Progress scan \<le> scan_Progress (fst (tick_broadcast scan))"
proof -
  show "ticking (fst (tick_test scan)) \<and> scan_Progress scan \<le> scan_Progress (fst (tick_test scan))"
    using assms by (auto simp: tick_test_def ticking_def split: ticker.splits)
  show "ticking (fst (tick_load scan)) \<and> scan_Progress scan \<le> scan_Progress (fst (tick_load scan))"
    using assms by (simp add: tick_load_def ticking_def split: ticker.splits)
  show "ticking (fst (tick_broadcast scan))
         \<and> scan_Progress scan \<le> scan_Progress (fst (tick_broadcast scan))"
    using assms by (simp add: tick_broadcast_def ticking_def split: ticker.splits)
  show "ticking (fst (tick_store scan)) \<and> scan_Progress scan \<le> scan_Progress (fst (tick_store scan))"
  proof (cases "scan_ticker scan")
    case (TickerLoaded p)
    then have p: "p = scan_Progress scan" "p < float64 (9 / 10)" "p \<in> set tick_values"
      using assms by (simp_all add: ticking_def)
    show ?thesis
      using tick_values_next [OF p(3) p(2)] TickerLoaded p(1)
      by (simp add: tick_store_def ticking_def)
  qed (use assms in \<open>simp_all add: tick_store_def\<close>)
qed

lemma cancel_ticking:
  assumes "ticking_at scanID sm"
  shows "ticking_at scanID (snd (CancelScan sm scanID))
       \<and> progress_of scanID sm \<le> progress_of scanID (snd (CancelScan sm scanID))"
proof -
  obtain scan where s: "scans sm scanID = Some scan" and t: "ticking scan"
    using assms by (auto simp: ticking_at_def split: option.splits)
  show ?thesis
  proof (cases "scan_Status scan = ''running''")
    case True
    show ?thesis
      using CancelScan_running [OF s True] s t
      by (simp add: ticking_at_def progress_of_def ticking_def split: ticker.splits)
  next
    case False
    show ?thesis using CancelScan_not_running [OF s False] assms by simp
  qed
qed

lemma on_scan_ticking:
  assumes "ticking_at scanID sm"
    and "\<And>scan. ticking scan \<Longrightarrow> ticking (fst (f scan)) \<and> scan_Progress scan \<le> scan_Progress (fst (f scan))"
  shows "ticking_at scanID (on_scan sm scanID f)
       \<and> progress_of scanID sm \<le> progress_of scanID (on_scan sm scanID f)"
proof -
  obtain scan where s: "scans sm scanID = Some scan" and t: "ticking scan"
    using assms(1) by (auto simp: ticking_at_def split: option.splits)
  obtain scan' es where f: "f scan = (scan', es)" by (cases "f scan")
  show ?thesis
    using assms(2) [OF t] s f by (simp add: on_scan_def ticking_at_def progress_of_def)
qed

lemma action_ticking:
  assumes "ticking_at scanID sm" and "before_return [a]"
  shows "ticking_at scanID (apply_action scanID sm a)
       \<and> progress_of scanID sm \<le> progress_of scanID (apply_action scanID sm a)"
proof (cases a)
  case TickTest
  show ?thesis unfolding TickTest apply_action.simps
    by (rule on_scan_ticking [OF assms(1)]) (rule tick_step_progress)
next
  case TickLoad
  show ?thesis unfolding TickLoad apply_action.simps
    by (rule on_scan_ticking [OF assms(1)]) (rule tick_step_progress)
next
  case TickStore
  show ?thesis unfolding TickStore apply_action.simps
    by (rule on_scan_ticking [OF assms(1)]) (rule tick_step_progress)
next
  case TickBroadcast
  show ?thesis unfolding TickBroadcast apply_action.simps
    by (rule on_scan_ticking [OF assms(1)]) (rule tick_step_progress)
next
  case Cancel
  show ?thesis unfolding Cancel apply_action.simps by (rule cancel_ticking [OF assms(1)])
next
  case (Finish now out)
  then show ?thesis using assms(2) by (simp add: before_return_def)
qed

lemma run_ticking:
  assumes "ticking_at scanID sm" and "before_return as"
  shows "sorted (map (progress_of scanID) (run scanID sm as))
       \<and> (\<forall>sm' \<in> set (run scanID sm as).
             ticking_at scanID sm' \<and> progress_of scanID sm \<le> progress_of scanID sm')"
  using assms
proof (induction as arbitrary: sm)
  case Nil
  then show ?case by simp
next
  case (Cons a as)
  let ?sm1 = "apply_action scanID sm a"
  have a: "before_return [a]" and as: "before_return as"
    using Cons.prems(2) by (simp_all add: before_return_def)
  have t1: "ticking_at scanID ?sm1" and le: "progress_of scanID sm \<le> progress_of scanID ?sm1"
    using action_ticking [OF Cons.prems(1) a] by simp_all
  note ih = Cons.IH [OF t1 as]
  have later: "\<forall>sm' \<in> set (run scanID ?sm1 as).
                 ticking_at scanID sm' \<and> progress_of scanID sm \<le> progress_of scanID sm'"
  proof
    fix sm'
    assume "sm' \<in> set (run scanID ?sm1 as)"
    then have "ticking_at scanID sm' \<and> progress_of scanID ?sm1 \<le> progress_of scanID sm'"
      using ih by blast
    then show "ticking_at scanID sm' \<and> progress_of scanID sm \<le> progress_of scanID sm'"
      using le by simp
  qed
  have "sorted (map (progress_of scanID) (sm # run scanID ?sm1 as))"
    using ih later by simp
  then show ?case using later Cons.prems(1) by simp
qed

lemma ticking_below_1:
  assumes "ticking_at scanID sm"
  shows "0 \<le> progress_of scanID sm \<and> progress_of scanID sm < 1"
  using assms tick_values_bounds
  by (auto simp: ticking_at_def ticking_def progress_of_def split: option.splits)

lemma run_not_Nil: "run scanID sm as \<noteq> []"
  by (cases as) simp_all

lemma run_append:
  "run scanID sm (as @ [a]) = run scanID sm as @ [apply_action scanID (last (run scanID sm as)) a]"
  by (induction as arbitrary: sm) (simp_all add: run_not_Nil)

lemma finish_terminal:
  assumes "scans sm scanID \<noteq> None"
  shows "progress_of scanID (apply_action scanID sm (Finish now out)) = 1
       \<and> terminal_status (status_of scanID (apply_action scanID sm (Finish now out)))"
proof -
  obtain scan where s: "scans sm scanID = Some scan" using assms by auto
  have keep: "progress_of scanID (store_session_results now sm' scanID) = progress_of scanID sm'
            \<and> status_of scanID (store_session_results now sm' scanID) = status_of scanID sm'"
    for sm' :: "'a ScanManager"
    by (simp add: store_session_results_def progress_of_def status_of_def split: option.splits)
  obtain scan' es where f: "executeScan_finish now out scan = (scan', es)"
    by (cases "executeScan_finish now out scan")
  have p: "scan_Progress scan' = 1" and t: "terminal_status (scan_Status scan')"
    using f by (cases out; auto simp: executeScan_finish_def Let_def terminal_status_def)+
  have o: "on_scan sm scanID (executeScan_finish now out)
             = sm\<lparr>scans := (scans sm)(scanID \<mapsto> scan'), effects := effects sm @ es\<rparr>"
    using s f by (simp add: on_scan_def)
  have "progress_of scanID (on_scan sm scanID (executeScan_finish now out)) = 1
      \<and> status_of scanID (on_scan sm scanID (executeScan_finish now out)) = scan_Status scan'"
    unfolding o using p by (simp add: progress_of_def status_of_def)
  then show ?thesis
    using keep [of "on_scan sm scanID (executeScan_finish now out)"] t by simp
qed

lemma scan_life_until_return:
  assumes "app_modules sm moduleName \<noteq> None" and "before_return as"
  shows "sorted (map (progress_of newID)
           (scan_life sm newID now sessionID moduleName target (as @ [Finish t out])))
       \<and> (\<forall>sm' \<in> set (butlast (scan_life sm newID now sessionID moduleName target
                                   (as @ [Finish t out]))).
             progress_of newID sm' < 1)
       \<and> progress_of newID (last (scan_life sm newID now sessionID moduleName target
                                    (as @ [Finish t out]))) = 1
       \<and> terminal_status (status_of newID (last (scan_life sm newID now sessionID moduleName target
                                    (as @ [Finish t out]))))"
proof -
  let ?sm1 = "snd (StartScan sm newID now sessionID moduleName target)"
  let ?sm2 = "on_scan ?sm1 newID executeScan_start"
  let ?r = "run newID ?sm2 as"
  let ?fin = "apply_action newID (last ?r) (Finish t out)"
  obtain m where m: "app_modules sm moduleName = Some m" using assms(1) by auto
  have life: "scan_life sm newID now sessionID moduleName target (as @ [Finish t out])
                = ?sm1 # ?r @ [?fin]"
    by (simp add: scan_life_def Let_def run_append)
  have p1: "progress_of newID ?sm1 = 0"
    using m by (simp add: StartScan_def Let_def progress_of_def)
  have t2: "ticking_at newID ?sm2"
    using m
    by (simp add: StartScan_def Let_def on_scan_def ticking_at_def executeScan_start_def
          ticking_def tick_values_eq float64_tenth)
  note r = run_ticking [OF t2 assms(2)]
  have below: "\<forall>sm' \<in> set ?r. 0 \<le> progress_of newID sm' \<and> progress_of newID sm' < 1"
    using r ticking_below_1 by blast
  have "ticking_at newID (last ?r)" using r run_not_Nil [of newID ?sm2 as] last_in_set by blast
  then have ex: "scans (last ?r) newID \<noteq> None"
    by (auto simp: ticking_at_def split: option.splits)
  note fin = finish_terminal [OF ex, of t out]
  have s: "sorted (map (progress_of newID) (?sm1 # ?r @ [?fin]))"
    using r below fin p1 by (auto simp: sorted_append less_imp_le)
  have b: "\<forall>sm' \<in> set (butlast (?sm1 # ?r @ [?fin])). progress_of newID sm' < 1"
    using below p1 by (simp add: butlast_append)
  show ?thesis unfolding life using s b fin by simp
qed

text \<open>The statuses a web enumeration sets.\<close>

lemma ws_SetStatus_simps:
  "ws_out (ws_SetStatus now st p m s) = ws_out s"
  "ws_found (ws_SetStatus now st p m s) = ws_found s"
  "ws_tested (ws_SetStatus now st p m s) = ws_tested s"
  "stopCh (ws_mod (ws_SetStatus now st p m s)) = stopCh (ws_mod s)"
  "status_progress (ws_trace (ws_SetStatus now st p m s)) = status_progress (ws_trace s) @ [(st, p)]"
  by (simp_all add: ws_SetStatus_def Let_def SetStatus_keeps GetStatus_def status_progress_def)

lemma ws_SendResult_simps:
  "ws_mod (ws_SendResult env sid t d s) = ws_mod s"
  "ws_found (ws_SendResult env sid t d s) = ws_found s"
  "ws_tested (ws_SendResult env sid t d s) = ws_tested s"
  "ws_trace (ws_SendResult env sid t d s) = ws_trace s"
  by (simp_all add: ws_SendResult_def)

lemma fold_ws_SendResult_simps:
  "ws_mod (fold (\<lambda>v. ws_SendResult env sid t (f v)) vs s) = ws_mod s"
  "ws_trace (fold (\<lambda>v. ws_SendResult env sid t (f v)) vs s) = ws_trace s"
  by (induction vs arbitrary: s) (simp_all add: ws_SendResult_simps)

lemma path_goroutine_simps:
  "ws_tested (path_goroutine env sid path s) = Suc (ws_tested s)"
  "stopCh (ws_mod (path_goroutine env sid path s)) = stopCh (ws_mod s)"
  "status_progress (ws_trace (path_goroutine env sid path s)) =
     status_progress (ws_trace s)
       @ [(''running'',
           3 / 10 + (6 / 10 * of_nat (Suc (ws_tested s)) / of_nat (length (generatePaths env))))]"
  by (simp_all add: path_goroutine_def Let_def ws_SetStatus_simps ws_SendResult_simps
        split: option.splits)

text \<open>The paths whose goroutines are started: none when a stop token waits at the start.\<close>

lemma path_loop_trace:
  "status_progress (ws_trace (path_loop env sid paths s))
     = status_progress (ws_trace s)
       @ map (\<lambda>k. (''running'', 3 / 10 + (6 / 10 * of_nat k / of_nat (length (generatePaths env)))))
           [Suc (ws_tested s) ..<
              Suc (ws_tested s + (if queue (stopCh (ws_mod s)) = [] then length paths else 0))]"
proof (cases "queue (stopCh (ws_mod s)) = []")
  case False
  then show ?thesis
    by (cases paths; cases "queue (stopCh (ws_mod s))")
       (simp_all add: IsStopped_def try_recv_def)
next
  case True
  then show ?thesis
  proof (induction paths arbitrary: s)
    case Nil
    then show ?case by simp
  next
    case (Cons path paths)
    let ?s1 = "path_goroutine env sid path s"
    have step: "path_loop env sid (path # paths) s = path_loop env sid paths ?s1"
      using Cons.prems by (simp add: IsStopped_no_token)
    have e: "queue (stopCh (ws_mod ?s1)) = []"
      using Cons.prems by (simp add: path_goroutine_simps)
    show ?case
      unfolding step using Cons.IH [OF e] Cons.prems
      by (simp add: path_goroutine_simps upt_shift del: upt_Suc)
  qed
qed

lemma WebEnum_trace:
  "status_progress (ws_trace (snd (WebEnum_Execute env b target sid out)))
     = (if url_Parse_error env (if \<not> prefix ''http'' target then ''https://'' @ target else target)
           = None
        then [(''running'', 0), (''running'', 1 / 10), (''running'', 2 / 10), (''running'', 3 / 10)]
             @ map (\<lambda>k. (''running'',
                           3 / 10 + (6 / 10 * of_nat k / of_nat (length (generatePaths env)))))
                 [Suc 0 ..< Suc (if queue (stopCh b) = [] then length (generatePaths env) else 0)]
             @ [(''running'', 9 / 10), (''completed'', 1)]
        else [(''running'', 0)])"
proof (cases "url_Parse_error env (if \<not> prefix ''http'' target then ''https://'' @ target else target)")
  case (Some msg)
  then show ?thesis
    by (simp add: WebEnum_Execute_def Let_def ws_SetStatus_simps status_progress_Nil)
next
  case None
  then show ?thesis
    by (simp add: WebEnum_Execute_def Let_def ws_SetStatus_simps ws_SendResult_simps
          fold_ws_SendResult_simps path_loop_trace status_progress_Nil del: upt_Suc)
qed

lemma phase_progress_bounds:
  assumes "k \<in> set [Suc 0 ..< Suc m]" and "m \<le> n"
  shows "(3 / 10 :: rat) \<le> 3 / 10 + (6 / 10 * of_nat k / of_nat n)"
    and "3 / 10 + (6 / 10 * of_nat k / of_nat n) \<le> (9 / 10 :: rat)"
proof -
  have kn: "k \<le> n" and n: "0 < n" using assms by (simp_all del: upt_Suc)
  have q: "(of_nat k / of_nat n :: rat) \<le> 1" using kn n by simp
  have z: "(0 :: rat) \<le> of_nat k / of_nat n" by simp
  have e: "(6 / 10 * of_nat k / of_nat n :: rat) = 6 / 10 * (of_nat k / of_nat n)" by simp
  show "(3 / 10 :: rat) \<le> 3 / 10 + (6 / 10 * of_nat k / of_nat n)"
    unfolding e using z by simp
  show "3 / 10 + (6 / 10 * of_nat k / of_nat n) \<le> (9 / 10 :: rat)"
    unfolding e using q by simp
qed

lemma phase_progress_sorted:
  "sorted (map (\<lambda>k. 3 / 10 + (6 / 10 * of_nat k / of_nat n) :: rat) [a ..< b])"
proof -
  have "sorted_wrt (\<lambda>x y. (3 / 10 + (6 / 10 * of_nat x / of_nat n) :: rat)
                          \<le> 3 / 10 + (6 / 10 * of_nat y / of_nat n)) [a ..< b]"
    by (rule sorted_wrt_mono_rel [OF _ sorted_wrt_upt]) (simp add: divide_right_mono)
  then show ?thesis by (simp only: sorted_map)
qed

lemma bounded_trace_monotone:
  fixes f :: "nat \<Rightarrow> rat"
  assumes "\<forall>x \<in> set xs. 3 / 10 \<le> f x \<and> f x \<le> 9 / 10" and "sorted (map f xs)"
  shows "monotone_to_completed
           ([(''running'', 0), (''running'', 1 / 10), (''running'', 2 / 10), (''running'', 3 / 10)]
            @ map (\<lambda>k. (''running'', f k)) xs
            @ [(''running'', 9 / 10), (''completed'', 1)])"
proof -
  have m: "map (snd \<circ> (\<lambda>k. (''running'', f k))) xs = map f xs" by (simp add: comp_def)
  have "sorted ([0, 1 / 10, 2 / 10, 3 / 10] @ map f xs @ [9 / 10, 1 :: rat])"
    unfolding sorted_append using assms by auto
  then have 1: "sorted (map snd
           ([(''running'', 0), (''running'', 1 / 10), (''running'', 2 / 10), (''running'', 3 / 10)]
            @ map (\<lambda>k. (''running'', f k)) xs
            @ [(''running'', 9 / 10), (''completed'', 1)]))"
    by (simp add: m)
  have 2: "\<forall>(st, p) \<in> set
           ([(''running'', 0), (''running'', 1 / 10), (''running'', 2 / 10), (''running'', 3 / 10)]
            @ map (\<lambda>k. (''running'', f k)) xs
            @ [(''running'', 9 / 10), (''completed'', 1)]). p = 1 \<longrightarrow> st = ''completed''"
    using assms(1) by auto
  show ?thesis unfolding monotone_to_completed_def using 1 2 by blast
qed

lemma web_trace_monotone:
  assumes "m \<le> n"
  shows "monotone_to_completed
           ([(''running'', 0), (''running'', 1 / 10), (''running'', 2 / 10), (''running'', 3 / 10)]
            @ map (\<lambda>k. (''running'', 3 / 10 + (6 / 10 * of_nat k / of_nat n))) [Suc 0 ..< Suc m]
            @ [(''running'', 9 / 10), (''completed'', 1)])"
proof (rule bounded_trace_monotone)
  show "\<forall>x \<in> set [Suc 0 ..< Suc m].
          (3 / 10 :: rat) \<le> 3 / 10 + (6 / 10 * of_nat x / of_nat n)
          \<and> 3 / 10 + (6 / 10 * of_nat x / of_nat n) \<le> (9 / 10 :: rat)"
    using phase_progress_bounds [OF _ assms] by blast
  show "sorted (map (\<lambda>k. 3 / 10 + (6 / 10 * of_nat k / of_nat n) :: rat) [Suc 0 ..< Suc m])"
    by (rule phase_progress_sorted)
qed

lemma WebEnum_monotone:
  "monotone_to_completed (status_progress (ws_trace (snd (WebEnum_Execute env b target sid out))))"
proof (cases "url_Parse_error env (if \<not> prefix ''http'' target then ''https://'' @ target else target) = None")
  case True
  have m: "(if queue (stopCh b) = [] then length (generatePaths env) else 0) \<le> length (generatePaths env)"
    by simp
  show ?thesis
    unfolding WebEnum_trace using web_trace_monotone [OF m] by (simp only: True simp_thms if_True)
next
  case False
  have "monotone_to_completed [(''running'', 0)]" by (simp add: monotone_to_completed_def)
  then show ?thesis unfolding WebEnum_trace by (simp only: False simp_thms if_False)
qed

text \<open>The statuses a port scan sets.\<close>

lemma ratio_sorted:
  "sorted (map (\<lambda>k. of_nat k / of_nat n :: rat) [a ..< b])"
proof -
  have "sorted_wrt (\<lambda>x y. (of_nat x / of_nat n :: rat) \<le> of_nat y / of_nat n) [a ..< b]"
    by (rule sorted_wrt_mono_rel [OF _ sorted_wrt_upt]) (simp add: divide_right_mono)
  then show ?thesis by (simp only: sorted_map)
qed

lemma port_trace_sorted:
  assumes "m \<le> n"
  shows "sorted (map snd ((''running'', 0)
           # map (\<lambda>k. (''running'', of_nat k / of_nat n :: rat)) [Suc 0 ..< Suc m]
           @ [(''completed'', 1)]))"
proof -
  have m: "map (snd \<circ> (\<lambda>k. (''running'', of_nat k / of_nat n :: rat))) [Suc 0 ..< Suc m]
             = map (\<lambda>k. of_nat k / of_nat n) [Suc 0 ..< Suc m]"
    by (simp add: comp_def)
  have b: "\<forall>k \<in> set [Suc 0 ..< Suc m]. (0 :: rat) \<le> of_nat k / of_nat n \<and> (of_nat k / of_nat n :: rat) \<le> 1"
    using assms by (auto simp del: upt_Suc)
  have "sorted ((0 :: rat) # map (\<lambda>k. of_nat k / of_nat n) [Suc 0 ..< Suc m] @ [1])"
    using b ratio_sorted [of n "Suc 0" "Suc m"] by (simp add: sorted_append del: upt_Suc)
  then show ?thesis by (simp add: m del: upt_Suc)
qed

lemma port_trace_full_progress:
  assumes "m \<le> n" and "i < Suc (Suc m)"
    and "snd (((''running'', 0)
           # map (\<lambda>k. (''running'', of_nat k / of_nat n :: rat)) [Suc 0 ..< Suc m]
           @ [(''completed'', 1)]) ! i) = 1"
  shows "fst (((''running'', 0)
           # map (\<lambda>k. (''running'', of_nat k / of_nat n :: rat)) [Suc 0 ..< Suc m]
           @ [(''completed'', 1)]) ! i) = ''completed'' \<or> i = n"
proof -
  let ?tr = "(''running'', 0)
           # map (\<lambda>k. (''running'', of_nat k / of_nat n :: rat)) [Suc 0 ..< Suc m]
           @ [(''completed'', 1)]"
  consider "i = 0" | "0 < i" "i \<le> m" | "i = Suc m" using assms(2) by linarith
  then show ?thesis
  proof cases
    case 1
    then show ?thesis using assms(3) by simp
  next
    case 2
    then obtain j where j: "i = Suc j" "j < m" by (cases i) auto
    have "?tr ! i = (''running'', of_nat (Suc j) / of_nat n)"
      using j by (simp add: nth_append del: upt_Suc of_nat_Suc)
    then have "(of_nat (Suc j) / of_nat n :: rat) = 1" using assms(3) by simp
    then have "Suc j = n" using assms(1) j(2) by (simp del: of_nat_Suc)
    then show ?thesis using j by simp
  next
    case 3
    then have "?tr ! i = (''completed'', 1)"
      by (simp add: nth_append del: upt_Suc)
    then show ?thesis by simp
  qed
qed

lemma PortScan_monotone:
  assumes "opt_ports opts \<noteq> []" and "length (queue out) \<le> cap out"
  shows "sorted (map snd (status_progress (ps_trace (snd (PortScan_Execute env opts b target sid out)))))
       \<and> (\<forall>i < length (status_progress (ps_trace (snd (PortScan_Execute env opts b target sid out)))).
             snd (status_progress (ps_trace (snd (PortScan_Execute env opts b target sid out))) ! i) = 1
             \<longrightarrow> fst (status_progress (ps_trace (snd (PortScan_Execute env opts b target sid out))) ! i)
                   = ''completed''
                 \<or> i = length (opt_ports opts))"
proof -
  let ?m = "length (launched b opts)" and ?n = "length (opt_ports opts)"
  have t: "status_progress (ps_trace (snd (PortScan_Execute env opts b target sid out)))
           = (''running'', 0)
             # map (\<lambda>k. (''running'', of_nat k / of_nat ?n)) [Suc 0 ..< Suc ?m]
             @ [(''completed'', 1)]"
    using PortScan_Execute_run [OF assms] by blast
  have l: "length ((''running'', 0 :: rat)
             # map (\<lambda>k. (''running'', of_nat k / of_nat ?n)) [Suc 0 ..< Suc ?m]
             @ [(''completed'', 1)]) = Suc (Suc ?m)"
    by (simp del: upt_Suc)
  show ?thesis
    unfolding t l
    using port_trace_sorted [OF launched_length] port_trace_full_progress [OF launched_length]
    by blast
qed

text \<open>
  Claim C7, as stated, fails in both parts. A tick of the progress goroutine that has
  read \<^verbatim>\<open>scan.Progress\<close> before the module returns, and stores its sum after
  \<^verbatim>\<open>executeScan\<close> has set the progress to 1.0, takes the progress of the completed scan
  from 1.0 back to 0.30000000000000004: nothing orders the accesses of the two goroutines. And a
  port scan of the ports 80 and 443 reports progress 1.0 with the update of its last
  port, in status \<open>running\<close>, before its final update to \<open>completed\<close>.
\<close>

theorem progress_falls_after_return_and_is_full_while_running:
  "map (\<lambda>sm. (status_of ''scan_1'' sm, progress_of ''scan_1'' sm))
     (scan_life manager0 ''scan_1'' 0 ''s1'' ''domain_enum'' ''example.com''
        [TickTest, TickLoad, TickStore, TickBroadcast, TickTest, TickLoad,
         Finish 9 (Returned ''r''), TickStore])
   = [(''pending'', 0),
      (''running'', 3602879701896397 / 36028797018963968),
      (''running'', 3602879701896397 / 36028797018963968),
      (''running'', 3602879701896397 / 36028797018963968),
      (''running'', 3602879701896397 / 18014398509481984),
      (''running'', 3602879701896397 / 18014398509481984),
      (''running'', 3602879701896397 / 18014398509481984),
      (''running'', 3602879701896397 / 18014398509481984),
      (''completed'', 1),
      (''completed'', 1351079888211149 / 4503599627370496)]
   \<and> (1351079888211149 / 4503599627370496 :: rat) < 1
   \<and> status_progress (ps_trace (snd (PortScan_Execute env_all_open (opts_ports [80, 443])
         (NewBaseModule ''port_scan'') ''10.0.0.5'' ''s1'' (make_chan 100))))
     = [(''running'', 0), (''running'', 1 / 2), (''running'', 1), (''completed'', 1)]"
  by code_simp

text \<open>
  Claim C7, amended. For a scan started on a registered module, take any steps of the
  progress goroutine and calls of \<^verbatim>\<open>CancelScan\<close>, followed by the return of the
  module. The progress values of the scan, from \<^verbatim>\<open>StartScan\<close> up to and including what
  \<^verbatim>\<open>executeScan\<close> records at the return, never decrease; they are below 1 before
  the return, and the progress recorded at the return is 1, together with a terminal
  status (\<open>completed\<close> or \<open>failed\<close>). The statuses that one run of the web enumeration
  sets, each phase within its own range and the phases in their fixed order, have
  progress values that never decrease and reach 1 only with the status \<open>completed\<close>.
  The statuses that one run of the port scan sets, on \<open>n > 0\<close> ports, have progress
  values that never decrease, and reach 1 only with the final status \<open>completed\<close> and
  with the update of the \<open>n\<close>-th port, which is made in status \<open>running\<close>.
\<close>

theorem progress_monotone_until_return:
  assumes "app_modules sm moduleName \<noteq> None" and "before_return as"
    and "opt_ports opts \<noteq> []" and "length (queue pout) \<le> cap pout"
  shows "sorted (map (progress_of newID)
           (scan_life sm newID now sessionID moduleName target (as @ [Finish t res])))
       \<and> (\<forall>sm' \<in> set (butlast (scan_life sm newID now sessionID moduleName target
                                   (as @ [Finish t res]))).
             progress_of newID sm' < 1)
       \<and> progress_of newID (last (scan_life sm newID now sessionID moduleName target
                                    (as @ [Finish t res]))) = 1
       \<and> terminal_status (status_of newID (last (scan_life sm newID now sessionID moduleName target
                                    (as @ [Finish t res]))))
       \<and> monotone_to_completed
           (status_progress (ws_trace (snd (WebEnum_Execute env b url sid out))))
       \<and> sorted (map snd (status_progress
           (ps_trace (snd (PortScan_Execute penv opts pb ptarget psid pout)))))
       \<and> (\<forall>i < length (status_progress
                        (ps_trace (snd (PortScan_Execute penv opts pb ptarget psid pout)))).
             snd (status_progress
                    (ps_trace (snd (PortScan_Execute penv opts pb ptarget psid pout))) ! i) = 1
             \<longrightarrow> fst (status_progress
                         (ps_trace (snd (PortScan_Execute penv opts pb ptarget psid pout))) ! i)
                   = ''completed''
                 \<or> i = length (opt_ports opts))"
proof -
  note l = scan_life_until_return [OF assms(1,2), of newID now sessionID target t res]
  note w = WebEnum_monotone [of env b url sid out]
  note p = PortScan_monotone [OF assms(3,4), of penv pb ptarget psid]
  show ?thesis using l w p by blast
qed

theorem progress_monotone_until_return_witness:
  "app_modules manager0 ''domain_enum'' \<noteq> None
   \<and> before_return [TickTest, TickLoad, Cancel, TickStore, TickBroadcast, TickTest :: string action]
   \<and> opt_ports (opts_ports [20, 21, 22, 23]) \<noteq> []
   \<and> map (\<lambda>sm. (status_of ''scan_1'' sm, progress_of ''scan_1'' sm))
        (scan_life manager0 ''scan_1'' 0 ''s1'' ''domain_enum'' ''example.com''
           ([TickTest, TickLoad, Cancel, TickStore, TickBroadcast, TickTest]
            @ [Finish 9 (Returned ''r'')]))
      = [(''pending'', 0),
         (''running'', 3602879701896397 / 36028797018963968),
         (''running'', 3602879701896397 / 36028797018963968),
         (''running'', 3602879701896397 / 36028797018963968),
         (''cancelled'', 3602879701896397 / 36028797018963968),
         (''cancelled'', 3602879701896397 / 18014398509481984),
         (''cancelled'', 3602879701896397 / 18014398509481984),
         (''cancelled'', 3602879701896397 / 18014398509481984),
         (''completed'', 1)]
   \<and> sorted (map (progress_of ''scan_1'')
        (scan_life manager0 ''scan_1'' 0 ''s1'' ''domain_enum'' ''example.com''
           ([TickTest, TickLoad, Cancel, TickStore, TickBroadcast, TickTest]
            @ [Finish 9 (Returned ''r'')])))
   \<and> monotone_to_completed
        (status_progress (ws_trace (snd (WebEnum_Execute env_site (NewBaseModule ''web_enum'')
           ''example.com'' ''s1'' (make_chan 100)))))
   \<and> sorted (map snd (status_progress (ps_trace (snd (PortScan_Execute env_ssh_only
        (opts_ports [20, 21, 22, 23]) (NewBaseModule ''port_scan'') ''10.0.0.5'' ''s1''
        (make_chan 100))))))"
proof -
  have reg: "app_modules manager0 ''domain_enum'' \<noteq> None" by (simp add: manager0_def)
  have h: "before_return [TickTest, TickLoad, Cancel, TickStore, TickBroadcast, TickTest :: string action]"
    by (simp add: before_return_def)
  have ne: "opt_ports (opts_ports [20, 21, 22, 23]) \<noteq> []" by (simp add: opts_ports_def)
  have room: "length (queue (make_chan 100 :: port_payload ModuleResult chan))
                \<le> cap (make_chan 100 :: port_payload ModuleResult chan)"
    by (simp add: make_chan_def)
  have a: "map (\<lambda>sm. (status_of ''scan_1'' sm, progress_of ''scan_1'' sm))
        (scan_life manager0 ''scan_1'' 0 ''s1'' ''domain_enum'' ''example.com''
           ([TickTest, TickLoad, Cancel, TickStore, TickBroadcast, TickTest]
            @ [Finish 9 (Returned ''r'')]))
      = [(''pending'', 0),
         (''running'', 3602879701896397 / 36028797018963968),
         (''running'', 3602879701896397 / 36028797018963968),
         (''running'', 3602879701896397 / 36028797018963968),
         (''cancelled'', 3602879701896397 / 36028797018963968),
         (''cancelled'', 3602879701896397 / 18014398509481984),
         (''cancelled'', 3602879701896397 / 18014398509481984),
         (''cancelled'', 3602879701896397 / 18014398509481984),
         (''completed'', 1)]"
    by code_simp
  note t = progress_monotone_until_return [OF reg h ne room, of "''scan_1''" 0 "''s1''"
      "''example.com''" 9 "Returned ''r''" env_site "NewBaseModule ''web_enum''"
      "''example.com''" "''s1''" "make_chan 100" env_ssh_only "NewBaseModule ''port_scan''"
      "''10.0.0.5''" "''s1''"]
  show ?thesis using reg h ne a t by blast
qed

end
